theory Spec2Isabelle
  imports Main "HOL-Library.AList"
begin

section \<open>The record task manager of blrec (src/blrec/task/task_manager.py)\<close>

text \<open>
  A shallow embedding of the class \<open>RecordTaskManager\<close>. The manager owns a dictionary
  \<open>_tasks\<close> from room identifiers to \<open>RecordTask\<close> objects. Python dictionaries keep
  insertion order, so the dictionary is an association list of references; the objects
  themselves live in a store, because the manager mutates them through references.
  Every call that crosses into a \<open>RecordTask\<close> is recorded in a trace; whether it raises
  is decided by an environment that sees the history of calls so far. Coroutines are run
  one after the other: the model is the sequential reading of the code.
\<close>

subsection \<open>Exceptions\<close>

text \<open>
  The exceptions that the module names or that its library calls raise.
  \<open>NotFoundError\<close> carries its message. \<open>TimeoutError\<close>, \<open>ClientError\<close> and
  \<open>ApiRequestError\<close> stand for \<open>asyncio.TimeoutError\<close>, \<open>aiohttp.ClientError\<close> and
  \<open>ApiRequestError\<close> with their subclasses; \<open>JobError\<close> is any other subclass of
  \<open>Exception\<close> that a job raises, such as an \<open>AttributeError\<close> of a field that is not
  there yet. \<open>CancelledError\<close> is \<open>asyncio.CancelledError\<close>, raised at an \<open>await\<close>
  when the caller is cancelled; since Python 3.8 it derives from \<open>BaseException\<close> and
  not from \<open>Exception\<close>, so \<open>except Exception\<close> does not catch it. It stands for
  every exception outside \<open>Exception\<close>.
\<close>

datatype error =
    NotFoundError string
  | KeyError
  | ValueError string
  | AssertionError
  | TimeoutError
  | ClientError string
  | ApiRequestError string
  | JobError string
  | CancelledError

text \<open>\<open>isinstance(e, Exception)\<close>: what a handler \<open>except Exception\<close> catches.\<close>

definition is_Exception :: "error \<Rightarrow> bool" where
  "is_Exception e = (case e of CancelledError \<Rightarrow> False | _ \<Rightarrow> True)"

subsection \<open>Formatting a room identifier\<close>

definition digit_chars :: string where
  "digit_chars = ''0123456789''"

function str_nat :: "nat \<Rightarrow> string" where
  "str_nat n = (if n < 10 then [digit_chars ! n]
                else str_nat (n div 10) @ [digit_chars ! (n mod 10)])"
  by pat_completeness auto
termination
  by (relation "measure (\<lambda>n. n)") auto

declare str_nat.simps [simp del]

definition str_int :: "int \<Rightarrow> string" where
  "str_int i = (if i < 0 then CHR ''-'' # str_nat (nat (- i)) else str_nat (nat i))"

subsection \<open>Settings bundles\<close>

record HeaderSettings =
  user_agent :: string
  cookie :: string

record OutputSettings =
  out_dir :: string
  path_template :: string
  filesize_limit :: int
  duration_limit :: int

record DanmakuSettings =
  danmu_uname :: bool
  record_gift_send :: bool
  record_free_gifts :: bool
  record_guard_buy :: bool
  record_super_chat :: bool
  save_raw_danmaku :: bool

record RecorderSettings =
  stream_format :: string
  quality_number :: int
  fmp4_stream_timeout :: int
  read_timeout :: int
  disconnection_timeout :: int
  buffer_size :: int
  save_cover :: bool
  cover_save_strategy :: string

record PostprocessingSettings =
  remux_to_mp4 :: bool
  inject_extra_metadata :: bool
  delete_source :: string

record TaskSettings =
  room_id :: int
  enable_monitor :: bool
  enable_recorder :: bool
  header :: HeaderSettings
  output' :: OutputSettings
  danmaku :: DanmakuSettings
  recorder :: RecorderSettings
  postprocessing :: PostprocessingSettings

subsection \<open>Snapshots handed out by the queries\<close>

record TaskParam =
  out_dir :: string
  path_template :: string
  filesize_limit :: int
  duration_limit :: int
  user_agent :: string
  cookie :: string
  danmu_uname :: bool
  record_gift_send :: bool
  record_free_gifts :: bool
  record_guard_buy :: bool
  record_super_chat :: bool
  save_cover :: bool
  cover_save_strategy :: string
  save_raw_danmaku :: bool
  stream_format :: string
  quality_number :: int
  fmp4_stream_timeout :: int
  read_timeout :: int
  disconnection_timeout :: int
  buffer_size :: int
  remux_to_mp4 :: bool
  inject_extra_metadata :: bool
  delete_source :: string

record TaskData =
  user_info :: string
  room_info :: string
  task_status :: string

subsection \<open>The job object\<close>

text \<open>
  The fields of a \<open>RecordTask\<close> that the manager reads or writes. The values the manager
  only passes on (user info, room info, status, metadata, stream profile, file details)
  are opaque to it and are strings here.
\<close>

record RecordTask =
  ready :: bool
  user_agent :: string
  cookie :: string
  out_dir :: string
  path_template :: string
  filesize_limit :: int
  duration_limit :: int
  danmu_uname :: bool
  record_gift_send :: bool
  record_free_gifts :: bool
  record_guard_buy :: bool
  record_super_chat :: bool
  save_raw_danmaku :: bool
  stream_format :: string
  quality_number :: int
  fmp4_stream_timeout :: int
  read_timeout :: int
  disconnection_timeout :: int
  buffer_size :: int
  save_cover :: bool
  cover_save_strategy :: string
  remux_to_mp4 :: bool
  inject_extra_metadata :: bool
  delete_source :: string
  user_info :: string
  room_info :: string
  status :: string
  metadata :: "string option"
  stream_profile :: string
  video_file_details :: "string list"
  danmaku_file_details :: "string list"

text \<open>
  Modelled from the spec: the constructor \<open>RecordTask(room_id)\<close> is not part of this
  module. A job is not ready until its asynchronous setup has completed; its
  configuration is unset until the manager applies it.
\<close>

definition new_record_task :: "int \<Rightarrow> RecordTask" where
  "new_record_task room =
     \<lparr> ready = False, user_agent = [], cookie = [],
       out_dir = [], path_template = [], filesize_limit = 0, duration_limit = 0,
       danmu_uname = False, record_gift_send = False, record_free_gifts = False,
       record_guard_buy = False, record_super_chat = False, save_raw_danmaku = False,
       stream_format = [], quality_number = 0, fmp4_stream_timeout = 0,
       read_timeout = 0, disconnection_timeout = 0, buffer_size = 0,
       save_cover = False, cover_save_strategy = [],
       remux_to_mp4 = False, inject_extra_metadata = False, delete_source = [],
       user_info = [], room_info = [], status = [], metadata = None,
       stream_profile = [], video_file_details = [], danmaku_file_details = [] \<rparr>"

text \<open>
  The methods of a job that the manager calls, and \<open>SetAttr name\<close> for an assignment to
  the field \<open>name\<close> of a job: the fields are properties of the job, and an assignment
  runs the setter of the job, which may raise.
\<close>

datatype job_op =
    Setup
  | Destroy
  | EnableMonitor
  | DisableMonitor
  | EnableRecorder
  | DisableRecorder bool
  | UpdateInfo
  | UpdateSession
  | CanCutStream
  | CutStream
  | SetAttr string

text \<open>One entry of the trace: the operation and the reference of the job it is made on.\<close>

datatype event = Call nat job_op

text \<open>
  The environment: what a job does when one of its methods is called, given the calls
  made so far. \<open>outcome\<close> is the exception the call raises, if any; \<open>duration\<close> is
  the time the call takes, in whole time units; \<open>answer\<close> is the value returned by the
  two methods that return a boolean.
\<close>

record env =
  outcome :: "event list \<Rightarrow> nat \<Rightarrow> job_op \<Rightarrow> error option"
  duration :: "event list \<Rightarrow> nat \<Rightarrow> job_op \<Rightarrow> nat"
  answer :: "event list \<Rightarrow> nat \<Rightarrow> job_op \<Rightarrow> bool"

subsection \<open>The state of the manager and of its surroundings\<close>

text \<open>
  \<open>tasks\<close> is \<open>self._tasks\<close>; \<open>heap\<close> holds the job objects and \<open>next_ref\<close> is the
  next unused reference; \<open>trace\<close> lists the calls made on jobs; \<open>now\<close> is the clock;
  \<open>waits\<close> lists the pauses of the retry policy; \<open>submitted\<close> lists the exceptions
  handed to \<open>submit_exception\<close>.
\<close>

record manager =
  tasks :: "(int \<times> nat) list"
  heap :: "nat \<Rightarrow> RecordTask"
  next_ref :: nat
  trace :: "event list"
  now :: nat
  waits :: "nat list"
  submitted :: "error list"

type_synonym 'a action = "manager \<Rightarrow> (error + 'a) \<times> manager"

definition ret :: "'a \<Rightarrow> 'a action" where
  "ret a s = (Inr a, s)"

definition lift :: "(manager \<Rightarrow> error + 'a) \<Rightarrow> 'a action" where
  "lift f s = (f s, s)"

definition and_then :: "'a action \<Rightarrow> ('a \<Rightarrow> 'b action) \<Rightarrow> 'b action" where
  "and_then m f s = (case m s of (Inl e, s') \<Rightarrow> (Inl e, s') | (Inr a, s') \<Rightarrow> f a s')"

definition then_do :: "unit action \<Rightarrow> 'b action \<Rightarrow> 'b action" where
  "then_do m k = and_then m (\<lambda>_. k)"

definition modify :: "nat \<Rightarrow> (RecordTask \<Rightarrow> RecordTask) \<Rightarrow> manager \<Rightarrow> manager" where
  "modify task f s = s\<lparr>heap := (heap s)(task := f (heap s task))\<rparr>"

text \<open>
  Modelled from the spec: the methods of \<open>RecordTask\<close> are not part of this module. A
  call of a method is appended to the trace, takes its time, and raises or returns as
  the environment says; the ready flag is set once \<open>setup\<close> has completed.
\<close>

definition call_job :: "env \<Rightarrow> nat \<Rightarrow> job_op \<Rightarrow> unit action" where
  "call_job env task op s =
     (let s' = s\<lparr>trace := trace s @ [Call task op],
                 now := now s + duration env (trace s) task op\<rparr>
      in case outcome env (trace s) task op of
           Some e \<Rightarrow> (Inl e, s')
         | None \<Rightarrow> (Inr (), if op = Setup then modify task (\<lambda>t. t\<lparr>ready := True\<rparr>) s' else s'))"

definition ask_job :: "env \<Rightarrow> nat \<Rightarrow> job_op \<Rightarrow> bool action" where
  "ask_job env task op s =
     (let s' = s\<lparr>trace := trace s @ [Call task op],
                 now := now s + duration env (trace s) task op\<rparr>
      in case outcome env (trace s) task op of
           Some e \<Rightarrow> (Inl e, s')
         | None \<Rightarrow> (Inr (answer env (trace s) task op), s'))"

text \<open>
  \<open>task.name = value\<close>: the setter of the job runs, and when it returns the field has
  the new value.
\<close>

definition set_attr ::
  "env \<Rightarrow> nat \<Rightarrow> string \<Rightarrow> (RecordTask \<Rightarrow> RecordTask) \<Rightarrow> unit action" where
  "set_attr env task name f s =
     (case call_job env task (SetAttr name) s of
        (Inl e, s') \<Rightarrow> (Inl e, s')
      | (Inr _, s') \<Rightarrow> (Inr (), modify task f s'))"

subsection \<open>The registry\<close>

definition has_task :: "int \<Rightarrow> manager \<Rightarrow> bool" where
  "has_task room s = (map_of (tasks s) room \<noteq> None)"

text \<open>\<open>_get_task\<close>: both failures raise \<open>NotFoundError\<close>, with different messages.\<close>

definition get_task :: "int \<Rightarrow> bool \<Rightarrow> manager \<Rightarrow> error + nat" where
  "get_task room check_ready s =
     (case map_of (tasks s) room of
        None \<Rightarrow> Inl (NotFoundError (''no task for the room '' @ str_int room))
      | Some task \<Rightarrow>
          if check_ready \<and> \<not> ready (heap s task)
          then Inl (NotFoundError (''the task '' @ str_int room @ '' is not ready yet''))
          else Inr task)"

text \<open>\<open>self._tasks[room] = task\<close> and \<open>del self._tasks[room]\<close>.\<close>

definition set_task :: "int \<Rightarrow> nat \<Rightarrow> manager \<Rightarrow> manager" where
  "set_task room task s = s\<lparr>tasks := AList.update room task (tasks s)\<rparr>"

definition del_task :: "int \<Rightarrow> unit action" where
  "del_task room s =
     (if map_of (tasks s) room = None then (Inl KeyError, s)
      else (Inr (), s\<lparr>tasks := AList.delete room (tasks s)\<rparr>))"

subsection \<open>Operations on one room\<close>

definition remove_task :: "env \<Rightarrow> int \<Rightarrow> unit action" where
  "remove_task env room =
     and_then (lift (get_task room True)) (\<lambda>task.
       then_do (call_job env task (DisableRecorder True))
      (then_do (call_job env task DisableMonitor)
      (then_do (call_job env task Destroy)
               (del_task room))))"

definition start_task :: "env \<Rightarrow> int \<Rightarrow> unit action" where
  "start_task env room =
     and_then (lift (get_task room True)) (\<lambda>task.
       then_do (call_job env task UpdateInfo)
      (then_do (call_job env task EnableMonitor)
               (call_job env task EnableRecorder)))"

definition stop_task :: "env \<Rightarrow> int \<Rightarrow> bool \<Rightarrow> unit action" where
  "stop_task env room force =
     and_then (lift (get_task room True)) (\<lambda>task.
       then_do (call_job env task (DisableRecorder force))
               (call_job env task DisableMonitor))"

definition enable_task_monitor :: "env \<Rightarrow> int \<Rightarrow> unit action" where
  "enable_task_monitor env room =
     and_then (lift (get_task room True)) (\<lambda>task. call_job env task EnableMonitor)"

definition disable_task_monitor :: "env \<Rightarrow> int \<Rightarrow> unit action" where
  "disable_task_monitor env room =
     and_then (lift (get_task room True)) (\<lambda>task. call_job env task DisableMonitor)"

definition enable_task_recorder :: "env \<Rightarrow> int \<Rightarrow> unit action" where
  "enable_task_recorder env room =
     and_then (lift (get_task room True)) (\<lambda>task. call_job env task EnableRecorder)"

definition disable_task_recorder :: "env \<Rightarrow> int \<Rightarrow> bool \<Rightarrow> unit action" where
  "disable_task_recorder env room force =
     and_then (lift (get_task room True)) (\<lambda>task. call_job env task (DisableRecorder force))"

definition update_task_info :: "env \<Rightarrow> int \<Rightarrow> unit action" where
  "update_task_info env room =
     and_then (lift (get_task room True)) (\<lambda>task. call_job env task UpdateInfo)"

subsection \<open>Queries\<close>

definition make_task_param :: "RecordTask \<Rightarrow> TaskParam" where
  "make_task_param task =
     \<lparr> TaskParam.out_dir = out_dir task,
       TaskParam.path_template = path_template task,
       TaskParam.filesize_limit = filesize_limit task,
       TaskParam.duration_limit = duration_limit task,
       TaskParam.user_agent = user_agent task,
       TaskParam.cookie = cookie task,
       TaskParam.danmu_uname = danmu_uname task,
       TaskParam.record_gift_send = record_gift_send task,
       TaskParam.record_free_gifts = record_free_gifts task,
       TaskParam.record_guard_buy = record_guard_buy task,
       TaskParam.record_super_chat = record_super_chat task,
       TaskParam.save_cover = save_cover task,
       TaskParam.cover_save_strategy = cover_save_strategy task,
       TaskParam.save_raw_danmaku = save_raw_danmaku task,
       TaskParam.stream_format = stream_format task,
       TaskParam.quality_number = quality_number task,
       TaskParam.fmp4_stream_timeout = fmp4_stream_timeout task,
       TaskParam.read_timeout = read_timeout task,
       TaskParam.disconnection_timeout = disconnection_timeout task,
       TaskParam.buffer_size = buffer_size task,
       TaskParam.remux_to_mp4 = remux_to_mp4 task,
       TaskParam.inject_extra_metadata = inject_extra_metadata task,
       TaskParam.delete_source = delete_source task \<rparr>"

definition make_task_data :: "RecordTask \<Rightarrow> TaskData" where
  "make_task_data task =
     \<lparr> TaskData.user_info = user_info task,
       TaskData.room_info = room_info task,
       task_status = status task \<rparr>"

definition get_task_data :: "int \<Rightarrow> TaskData action" where
  "get_task_data room =
     and_then (lift (get_task room True)) (\<lambda>task s. (Inr (make_task_data (heap s task)), s))"

definition get_all_task_data :: "manager \<Rightarrow> TaskData list" where
  "get_all_task_data s =
     map make_task_data (filter ready (map (heap s) (map snd (tasks s))))"

definition get_task_param :: "int \<Rightarrow> TaskParam action" where
  "get_task_param room =
     and_then (lift (get_task room True)) (\<lambda>task s. (Inr (make_task_param (heap s task)), s))"

definition get_task_metadata :: "int \<Rightarrow> string option action" where
  "get_task_metadata room =
     and_then (lift (get_task room True)) (\<lambda>task s. (Inr (metadata (heap s task)), s))"

definition get_task_stream_profile :: "int \<Rightarrow> string action" where
  "get_task_stream_profile room =
     and_then (lift (get_task room True)) (\<lambda>task s. (Inr (stream_profile (heap s task)), s))"

text \<open>
  The two file listings are generators: the body, and so the lookup, runs when the
  caller first advances the generator. The model is the outcome of consuming it.
\<close>

definition get_task_video_file_details :: "int \<Rightarrow> string list action" where
  "get_task_video_file_details room =
     and_then (lift (get_task room True)) (\<lambda>task s. (Inr (video_file_details (heap s task)), s))"

definition get_task_danmaku_file_details :: "int \<Rightarrow> string list action" where
  "get_task_danmaku_file_details room =
     and_then (lift (get_task room True)) (\<lambda>task s. (Inr (danmaku_file_details (heap s task)), s))"

definition can_cut_stream :: "env \<Rightarrow> int \<Rightarrow> bool action" where
  "can_cut_stream env room =
     and_then (lift (get_task room True)) (\<lambda>task. ask_job env task CanCutStream)"

definition cut_stream :: "env \<Rightarrow> int \<Rightarrow> bool action" where
  "cut_stream env room =
     and_then (lift (get_task room True)) (\<lambda>task. ask_job env task CutStream)"

subsection \<open>Applying settings\<close>

definition apply_task_header_settings ::
  "env \<Rightarrow> int \<Rightarrow> HeaderSettings \<Rightarrow> bool \<Rightarrow> unit action" where
  "apply_task_header_settings env room settings update_session =
     and_then (lift (get_task room False)) (\<lambda>task s.
       if user_agent (heap s task) = HeaderSettings.user_agent settings \<and>
          cookie (heap s task) = HeaderSettings.cookie settings
       then (Inr (), s)
       else
         then_do (set_attr env task ''user_agent''
                    (\<lambda>t. t\<lparr>user_agent := HeaderSettings.user_agent settings\<rparr>))
        (then_do (set_attr env task ''cookie''
                    (\<lambda>t. t\<lparr>cookie := HeaderSettings.cookie settings\<rparr>))
                 (if update_session then call_job env task UpdateSession else ret ())) s)"

definition apply_task_output_settings ::
  "env \<Rightarrow> int \<Rightarrow> OutputSettings \<Rightarrow> unit action" where
  "apply_task_output_settings env room settings =
     and_then (lift (get_task room False)) (\<lambda>task.
       then_do (set_attr env task ''out_dir''
                  (\<lambda>t. t\<lparr>out_dir := OutputSettings.out_dir settings\<rparr>))
      (then_do (set_attr env task ''path_template''
                  (\<lambda>t. t\<lparr>path_template := OutputSettings.path_template settings\<rparr>))
      (then_do (set_attr env task ''filesize_limit''
                  (\<lambda>t. t\<lparr>filesize_limit := OutputSettings.filesize_limit settings\<rparr>))
               (set_attr env task ''duration_limit''
                  (\<lambda>t. t\<lparr>duration_limit := OutputSettings.duration_limit settings\<rparr>)))))"

definition apply_task_danmaku_settings ::
  "env \<Rightarrow> int \<Rightarrow> DanmakuSettings \<Rightarrow> unit action" where
  "apply_task_danmaku_settings env room settings =
     and_then (lift (get_task room False)) (\<lambda>task.
       then_do (set_attr env task ''danmu_uname''
                  (\<lambda>t. t\<lparr>danmu_uname := DanmakuSettings.danmu_uname settings\<rparr>))
      (then_do (set_attr env task ''record_gift_send''
                  (\<lambda>t. t\<lparr>record_gift_send := DanmakuSettings.record_gift_send settings\<rparr>))
      (then_do (set_attr env task ''record_free_gifts''
                  (\<lambda>t. t\<lparr>record_free_gifts := DanmakuSettings.record_free_gifts settings\<rparr>))
      (then_do (set_attr env task ''record_guard_buy''
                  (\<lambda>t. t\<lparr>record_guard_buy := DanmakuSettings.record_guard_buy settings\<rparr>))
      (then_do (set_attr env task ''record_super_chat''
                  (\<lambda>t. t\<lparr>record_super_chat := DanmakuSettings.record_super_chat settings\<rparr>))
               (set_attr env task ''save_raw_danmaku''
                  (\<lambda>t. t\<lparr>save_raw_danmaku := DanmakuSettings.save_raw_danmaku settings\<rparr>)))))))"

definition apply_task_recorder_settings ::
  "env \<Rightarrow> int \<Rightarrow> RecorderSettings \<Rightarrow> unit action" where
  "apply_task_recorder_settings env room settings =
     and_then (lift (get_task room False)) (\<lambda>task.
       then_do (set_attr env task ''stream_format''
                  (\<lambda>t. t\<lparr>stream_format := RecorderSettings.stream_format settings\<rparr>))
      (then_do (set_attr env task ''quality_number''
                  (\<lambda>t. t\<lparr>quality_number := RecorderSettings.quality_number settings\<rparr>))
      (then_do (set_attr env task ''fmp4_stream_timeout''
                  (\<lambda>t. t\<lparr>fmp4_stream_timeout := RecorderSettings.fmp4_stream_timeout settings\<rparr>))
      (then_do (set_attr env task ''read_timeout''
                  (\<lambda>t. t\<lparr>read_timeout := RecorderSettings.read_timeout settings\<rparr>))
      (then_do (set_attr env task ''disconnection_timeout''
                  (\<lambda>t. t\<lparr>disconnection_timeout :=
                            RecorderSettings.disconnection_timeout settings\<rparr>))
      (then_do (set_attr env task ''buffer_size''
                  (\<lambda>t. t\<lparr>buffer_size := RecorderSettings.buffer_size settings\<rparr>))
      (then_do (set_attr env task ''save_cover''
                  (\<lambda>t. t\<lparr>save_cover := RecorderSettings.save_cover settings\<rparr>))
               (set_attr env task ''cover_save_strategy''
                  (\<lambda>t. t\<lparr>cover_save_strategy :=
                            RecorderSettings.cover_save_strategy settings\<rparr>)))))))))"

definition apply_task_postprocessing_settings ::
  "env \<Rightarrow> int \<Rightarrow> PostprocessingSettings \<Rightarrow> unit action" where
  "apply_task_postprocessing_settings env room settings =
     and_then (lift (get_task room False)) (\<lambda>task.
       then_do (set_attr env task ''remux_to_mp4''
                  (\<lambda>t. t\<lparr>remux_to_mp4 := PostprocessingSettings.remux_to_mp4 settings\<rparr>))
      (then_do (set_attr env task ''inject_extra_metadata''
                  (\<lambda>t. t\<lparr>inject_extra_metadata :=
                            PostprocessingSettings.inject_extra_metadata settings\<rparr>))
               (set_attr env task ''delete_source''
                  (\<lambda>t. t\<lparr>delete_source := PostprocessingSettings.delete_source settings\<rparr>))))"

subsection \<open>Operations on all rooms\<close>

text \<open>
  \<open>asyncio.wait\<close> (Python 3.8 to 3.10, where it still accepts coroutines) raises
  \<open>ValueError\<close> on an empty collection. Otherwise it runs every coroutine to its end
  and returns the sets of finished and pending futures, which the manager drops: an
  exception raised by one coroutine stays in its future. The coroutines run here in the
  order of the list; the library promises no order.
\<close>

fun run_all :: "unit action list \<Rightarrow> manager \<Rightarrow> manager" where
  "run_all [] s = s"
| "run_all (c # cs) s = run_all cs (snd (c s))"

definition asyncio_wait :: "unit action list \<Rightarrow> unit action" where
  "asyncio_wait coros s =
     (if coros = [] then (Inl (ValueError ''Set of coroutines/Futures is empty.''), s)
      else (Inr (), run_all coros s))"

text \<open>The references of the jobs that are ready, in the order of \<open>self._tasks.values()\<close>.\<close>

definition ready_tasks :: "manager \<Rightarrow> nat list" where
  "ready_tasks s = filter (\<lambda>t. ready (heap s t)) (map snd (tasks s))"

definition destroy_all_tasks :: "env \<Rightarrow> unit action" where
  "destroy_all_tasks env s =
     (if tasks s = [] then (Inr (), s)
      else then_do (asyncio_wait (map (\<lambda>t. call_job env t Destroy) (ready_tasks s)))
                   (\<lambda>s'. (Inr (), s'\<lparr>tasks := []\<rparr>)) s)"

definition remove_all_tasks :: "env \<Rightarrow> unit action" where
  "remove_all_tasks env s =
     (let coros = map (\<lambda>(i, t). remove_task env i)
                      (filter (\<lambda>(i, t). ready (heap s t)) (tasks s))
      in if coros \<noteq> [] then asyncio_wait coros s else (Inr (), s))"

definition enable_all_task_monitors :: "env \<Rightarrow> unit action" where
  "enable_all_task_monitors env s =
     (let coros = map (\<lambda>t. call_job env t EnableMonitor) (ready_tasks s)
      in if coros \<noteq> [] then asyncio_wait coros s else (Inr (), s))"

definition disable_all_task_monitors :: "env \<Rightarrow> unit action" where
  "disable_all_task_monitors env s =
     (let coros = map (\<lambda>t. call_job env t DisableMonitor) (ready_tasks s)
      in if coros \<noteq> [] then asyncio_wait coros s else (Inr (), s))"

definition enable_all_task_recorders :: "env \<Rightarrow> unit action" where
  "enable_all_task_recorders env s =
     (let coros = map (\<lambda>t. call_job env t EnableRecorder) (ready_tasks s)
      in if coros \<noteq> [] then asyncio_wait coros s else (Inr (), s))"

definition disable_all_task_recorders :: "env \<Rightarrow> bool \<Rightarrow> unit action" where
  "disable_all_task_recorders env force s =
     (let coros = map (\<lambda>t. call_job env t (DisableRecorder force)) (ready_tasks s)
      in if coros \<noteq> [] then asyncio_wait coros s else (Inr (), s))"

definition update_all_task_infos :: "env \<Rightarrow> unit action" where
  "update_all_task_infos env s =
     (let coros = map (\<lambda>t. call_job env t UpdateInfo) (ready_tasks s)
      in if coros \<noteq> [] then asyncio_wait coros s else (Inr (), s))"

definition start_all_tasks :: "env \<Rightarrow> unit action" where
  "start_all_tasks env =
     then_do (update_all_task_infos env)
    (then_do (enable_all_task_monitors env)
             (enable_all_task_recorders env))"

definition stop_all_tasks :: "env \<Rightarrow> bool \<Rightarrow> unit action" where
  "stop_all_tasks env force =
     then_do (disable_all_task_recorders env force)
             (disable_all_task_monitors env)"

subsection \<open>Creating a job\<close>

text \<open>
  Modelled from the spec: \<open>SettingsManager\<close>, which \<open>add_task\<close> calls, is not part of
  this module. Its \<open>apply_task_*_settings\<close> apply the bundle to the job of the room,
  which is what the manager's operations of the same names do.
\<close>

definition settings_manager_apply_task_header_settings ::
  "env \<Rightarrow> int \<Rightarrow> HeaderSettings \<Rightarrow> bool \<Rightarrow> unit action" where
  "settings_manager_apply_task_header_settings = apply_task_header_settings"

definition settings_manager_apply_task_output_settings ::
  "env \<Rightarrow> int \<Rightarrow> OutputSettings \<Rightarrow> unit action" where
  "settings_manager_apply_task_output_settings = apply_task_output_settings"

definition settings_manager_apply_task_danmaku_settings ::
  "env \<Rightarrow> int \<Rightarrow> DanmakuSettings \<Rightarrow> unit action" where
  "settings_manager_apply_task_danmaku_settings = apply_task_danmaku_settings"

definition settings_manager_apply_task_recorder_settings ::
  "env \<Rightarrow> int \<Rightarrow> RecorderSettings \<Rightarrow> unit action" where
  "settings_manager_apply_task_recorder_settings = apply_task_recorder_settings"

definition settings_manager_apply_task_postprocessing_settings ::
  "env \<Rightarrow> int \<Rightarrow> PostprocessingSettings \<Rightarrow> unit action" where
  "settings_manager_apply_task_postprocessing_settings = apply_task_postprocessing_settings"

text \<open>\<open>task = RecordTask(settings.room_id)\<close>: a new object at a fresh reference.\<close>

definition alloc_task :: "int \<Rightarrow> manager \<Rightarrow> nat \<times> manager" where
  "alloc_task room s =
     (next_ref s,
      s\<lparr>heap := (heap s)(next_ref s := new_record_task room), next_ref := Suc (next_ref s)\<rparr>)"

text \<open>The statements inside \<open>try\<close>.\<close>

definition add_task_steps :: "env \<Rightarrow> TaskSettings \<Rightarrow> nat \<Rightarrow> unit action" where
  "add_task_steps env settings task =
     then_do (settings_manager_apply_task_header_settings env
                (room_id settings) (header settings) False)
    (then_do (call_job env task Setup)
    (then_do (settings_manager_apply_task_output_settings env
                (room_id settings) (output' settings))
    (then_do (settings_manager_apply_task_danmaku_settings env
                (room_id settings) (danmaku settings))
    (then_do (settings_manager_apply_task_recorder_settings env
                (room_id settings) (recorder settings))
    (then_do (settings_manager_apply_task_postprocessing_settings env
                (room_id settings) (postprocessing settings))
    (then_do (if enable_monitor settings then call_job env task EnableMonitor else ret ())
             (if enable_recorder settings then call_job env task EnableRecorder else ret ())))))))"

text \<open>
  The body of \<open>add_task\<close>, one attempt. The handler is \<open>except Exception\<close>: an exception
  outside \<open>Exception\<close> passes it by. In the handler, \<open>del\<close> runs before \<open>raise\<close>; if
  \<open>del\<close> itself raises, that exception is the one that leaves the handler.
\<close>

definition add_task_once :: "env \<Rightarrow> TaskSettings \<Rightarrow> unit action" where
  "add_task_once env settings s =
     (let (task, s1) = alloc_task (room_id settings) s;
          s2 = set_task (room_id settings) task s1
      in case add_task_steps env settings task s2 of
           (Inr u, s3) \<Rightarrow> (Inr u, s3)
         | (Inl e, s3) \<Rightarrow>
             if is_Exception e
             then (case del_task (room_id settings) s3 of
                     (Inl e', s4) \<Rightarrow> (Inl e', s4)
                   | (Inr _, s4) \<Rightarrow> (Inl e, s4))
             else (Inl e, s3))"

subsection \<open>The clock never runs backwards\<close>

text \<open>
  Needed before the retry loop can be defined: each attempt ends no earlier than it
  began, so the pauses between attempts use up the time budget.
\<close>

definition keeps_time :: "'a action \<Rightarrow> bool" where
  "keeps_time m = (\<forall>s. now s \<le> now (snd (m s)))"

lemma keeps_timeD: "keeps_time m \<Longrightarrow> now s \<le> now (snd (m s))"
  by (simp add: keeps_time_def)

lemma now_modify [simp]: "now (modify task f s) = now s"
  by (simp add: modify_def)

lemma keeps_time_call_job: "keeps_time (call_job env task op)"
  by (simp add: keeps_time_def call_job_def modify_def Let_def split: option.split)

lemma keeps_time_set_attr: "keeps_time (set_attr env task name f)"
  unfolding keeps_time_def
proof
  fix s
  obtain r s' where r: "call_job env task (SetAttr name) s = (r, s')"
    by (cases "call_job env task (SetAttr name) s")
  have "now s \<le> now (snd (call_job env task (SetAttr name) s))"
    by (rule keeps_timeD[OF keeps_time_call_job])
  with r show "now s \<le> now (snd (set_attr env task name f s))"
    by (cases r) (simp_all add: set_attr_def)
qed

lemma keeps_time_and_then:
  assumes m: "keeps_time m" and f: "\<And>a. keeps_time (f a)"
  shows "keeps_time (and_then m f)"
  unfolding keeps_time_def
proof
  fix s
  obtain r s' where r: "m s = (r, s')"
    by (cases "m s")
  from m have le: "now s \<le> now s'"
    using r by (auto simp: keeps_time_def dest: spec[of _ s])
  show "now s \<le> now (snd (and_then m f s))"
  proof (cases r)
    case (Inl e)
    with r le show ?thesis by (simp add: and_then_def)
  next
    case (Inr a)
    from f[of a] have "now s' \<le> now (snd (f a s'))"
      by (simp add: keeps_time_def)
    with Inr r le show ?thesis by (simp add: and_then_def)
  qed
qed

lemma keeps_time_then_do:
  "keeps_time m \<Longrightarrow> keeps_time k \<Longrightarrow> keeps_time (then_do m k)"
  by (simp add: then_do_def keeps_time_and_then)

lemma keeps_time_lift: "keeps_time (lift f)"
  by (simp add: keeps_time_def lift_def)

lemma keeps_time_ret: "keeps_time (ret a)"
  by (simp add: keeps_time_def ret_def)

lemma keeps_time_del_task: "keeps_time (del_task room)"
  by (simp add: keeps_time_def del_task_def)

lemma keeps_time_if:
  "keeps_time m \<Longrightarrow> keeps_time k \<Longrightarrow> keeps_time (\<lambda>s. if c s then m s else k s)"
  by (simp add: keeps_time_def)

lemma keeps_time_header: "keeps_time (apply_task_header_settings env room st u)"
  unfolding apply_task_header_settings_def
proof (rule keeps_time_and_then[OF keeps_time_lift])
  fix task
  have skip: "keeps_time (\<lambda>s. (Inr (), s))"
    by (simp add: keeps_time_def)
  have last: "keeps_time (if u then call_job env task UpdateSession else ret ())"
    by (simp add: keeps_time_call_job keeps_time_ret)
  show "keeps_time (\<lambda>s. if user_agent (heap s task) = HeaderSettings.user_agent st \<and>
          cookie (heap s task) = HeaderSettings.cookie st
       then (Inr (), s)
       else
         then_do (set_attr env task ''user_agent''
                    (\<lambda>t. t\<lparr>user_agent := HeaderSettings.user_agent st\<rparr>))
        (then_do (set_attr env task ''cookie''
                    (\<lambda>t. t\<lparr>cookie := HeaderSettings.cookie st\<rparr>))
                 (if u then call_job env task UpdateSession else ret ())) s)"
    by (intro keeps_time_if skip keeps_time_then_do keeps_time_set_attr last)
qed

lemma keeps_time_output: "keeps_time (apply_task_output_settings env room st)"
  unfolding apply_task_output_settings_def
  by (intro keeps_time_and_then keeps_time_lift keeps_time_then_do keeps_time_set_attr)

lemma keeps_time_danmaku: "keeps_time (apply_task_danmaku_settings env room st)"
  unfolding apply_task_danmaku_settings_def
  by (intro keeps_time_and_then keeps_time_lift keeps_time_then_do keeps_time_set_attr)

lemma keeps_time_recorder: "keeps_time (apply_task_recorder_settings env room st)"
  unfolding apply_task_recorder_settings_def
  by (intro keeps_time_and_then keeps_time_lift keeps_time_then_do keeps_time_set_attr)

lemma keeps_time_postprocessing:
  "keeps_time (apply_task_postprocessing_settings env room st)"
  unfolding apply_task_postprocessing_settings_def
  by (intro keeps_time_and_then keeps_time_lift keeps_time_then_do keeps_time_set_attr)

lemma keeps_time_steps: "keeps_time (add_task_steps env settings task)"
  unfolding add_task_steps_def settings_manager_apply_task_header_settings_def
    settings_manager_apply_task_output_settings_def
    settings_manager_apply_task_danmaku_settings_def
    settings_manager_apply_task_recorder_settings_def
    settings_manager_apply_task_postprocessing_settings_def
  by (intro keeps_time_then_do keeps_time_header keeps_time_output keeps_time_danmaku
        keeps_time_recorder keeps_time_postprocessing keeps_time_call_job)
     (simp_all add: keeps_time_call_job keeps_time_ret)

lemma keeps_time_add_task_once: "keeps_time (add_task_once env settings)"
  unfolding keeps_time_def
proof
  fix s
  let ?s2 = "set_task (room_id settings) (next_ref s) (snd (alloc_task (room_id settings) s))"
  have a: "now ?s2 = now s"
    by (simp add: set_task_def alloc_task_def)
  have b: "now ?s2 \<le> now (snd (add_task_steps env settings (next_ref s) ?s2))"
    by (rule keeps_timeD[OF keeps_time_steps])
  have c: "\<And>s3. now s3 \<le> now (snd (del_task (room_id settings) s3))"
    by (rule keeps_timeD[OF keeps_time_del_task])
  obtain r s3 where r: "add_task_steps env settings (next_ref s) ?s2 = (r, s3)"
    by (cases "add_task_steps env settings (next_ref s) ?s2")
  obtain r' s4 where r': "del_task (room_id settings) s3 = (r', s4)"
    by (cases "del_task (room_id settings) s3")
  from a b c[of s3] r r'
  show "now s \<le> now (snd (add_task_once env settings s))"
    by (cases r; cases r') (simp_all add: add_task_once_def alloc_task_def)
qed

subsection \<open>The retry policy of \<open>add_task\<close>\<close>

text \<open>
  Modelled from the spec: \<open>add_task\<close> is decorated with \<open>tenacity.retry\<close>; the
  arguments of the decorator are in the source, the library is not. The decorator is an
  explicit retry loop with a predicate that classifies the retryable exceptions, an
  exponential backoff with a cap, and a deadline on the time since the first attempt
  began; on exhaustion the last exception is raised again unchanged (\<open>reraise=True\<close>).
  Time is counted in whole time units. The pause after attempt \<open>n\<close> (counted from 1)
  is \<open>2 ^ (n - 1)\<close>, at most \<open>max=10\<close>; the loop stops once \<open>60\<close> time units have
  passed between the start of the call and the failure of an attempt.
\<close>

definition retry_if_exception_type :: "error \<Rightarrow> bool" where
  "retry_if_exception_type e =
     (case e of TimeoutError \<Rightarrow> True | ClientError _ \<Rightarrow> True | ApiRequestError _ \<Rightarrow> True
      | _ \<Rightarrow> False)"

definition wait_exponential :: "nat \<Rightarrow> nat" where
  "wait_exponential attempt_number = max 0 (min (1 * 2 ^ (attempt_number - 1)) 10)"

definition stop_after_delay :: "nat \<Rightarrow> bool" where
  "stop_after_delay seconds_since_start = (seconds_since_start \<ge> 60)"

definition sleep :: "nat \<Rightarrow> manager \<Rightarrow> manager" where
  "sleep d s = s\<lparr>now := now s + d, waits := waits s @ [d]\<rparr>"

lemma retrying_measure:
  assumes once: "(Inl a, y) = add_task_once env settings s"
    and go: "\<not> stop_after_delay (now y - start)"
  shows "start + 60 - now (sleep (wait_exponential attempt_number) y) < start + 60 - now s"
proof -
  have "now s \<le> now (snd (add_task_once env settings s))"
    by (rule keeps_timeD[OF keeps_time_add_task_once])
  with once[symmetric] have le: "now s \<le> now y" by simp
  have "1 \<le> wait_exponential attempt_number"
    by (simp add: wait_exponential_def)
  with le go show ?thesis
    by (simp add: stop_after_delay_def sleep_def)
qed

function retrying :: "env \<Rightarrow> TaskSettings \<Rightarrow> nat \<Rightarrow> nat \<Rightarrow> unit action" where
  "retrying env settings start attempt_number s =
     (case add_task_once env settings s of
        (Inr u, s') \<Rightarrow> (Inr u, s')
      | (Inl e, s') \<Rightarrow>
          if \<not> retry_if_exception_type e then (Inl e, s')
          else if stop_after_delay (now s' - start) then (Inl e, s')
          else retrying env settings start (Suc attempt_number)
                 (sleep (wait_exponential attempt_number) s'))"
  by pat_completeness auto

termination
  by (relation "measure (\<lambda>(env, settings, start, attempt_number, s). start + 60 - now s)")
     (simp_all add: retrying_measure)

declare retrying.simps [simp del]

text \<open>The decorated \<open>add_task\<close>: the clock is read when the call begins.\<close>

definition add_task :: "env \<Rightarrow> TaskSettings \<Rightarrow> unit action" where
  "add_task env settings s = retrying env settings (now s) 1 s"

subsection \<open>Loading the configured jobs\<close>

text \<open>
  Modelled from the spec: \<open>submit_exception\<close> is not part of this module; it forwards
  the exception to an external error-reporting sink.
\<close>

definition submit_exception :: "error \<Rightarrow> manager \<Rightarrow> manager" where
  "submit_exception e s = s\<lparr>submitted := submitted s @ [e]\<rparr>"

text \<open>
  The loop of \<open>load_all_tasks\<close>. Its handler is \<open>except Exception\<close> too: an exception of
  \<open>add_task\<close> outside \<open>Exception\<close> ends the loop and leaves \<open>load_all_tasks\<close>.
\<close>

fun load_loop :: "env \<Rightarrow> TaskSettings list \<Rightarrow> unit action" where
  "load_loop env [] s = (Inr (), s)"
| "load_loop env (settings # rest) s =
     (case add_task env settings s of
        (Inr _, s') \<Rightarrow> load_loop env rest s'
      | (Inl e, s') \<Rightarrow>
          if is_Exception e then load_loop env rest (submit_exception e s')
          else (Inl e, s'))"

text \<open>
  \<open>settings_list\<close> is what the settings manager returns for the key \<open>tasks\<close>; the
  assertion fails when it is \<open>None\<close>.
\<close>

definition load_all_tasks :: "env \<Rightarrow> TaskSettings list option \<Rightarrow> unit action" where
  "load_all_tasks env settings_list s =
     (case settings_list of
        None \<Rightarrow> (Inl AssertionError, s)
      | Some l \<Rightarrow> load_loop env l s)"

subsection \<open>Concrete managers and environments\<close>

text \<open>An environment in which no call on a job raises, every call takes no time.\<close>

definition env_ok :: env where
  "env_ok = \<lparr> outcome = (\<lambda>_ _ _. None), duration = (\<lambda>_ _ _. 0), answer = (\<lambda>_ _ _. False) \<rparr>"

text \<open>The manager after \<open>__init__\<close>.\<close>

definition empty_manager :: manager where
  "empty_manager = \<lparr> tasks = [], heap = (\<lambda>_. new_record_task 0), next_ref = 0,
                      trace = [], now = 0, waits = [], submitted = [] \<rparr>"

text \<open>Room 7 is registered and its job has not finished its setup; then the same, ready.\<close>

definition unready_manager :: manager where
  "unready_manager = set_task 7 0 (snd (alloc_task 7 empty_manager))"

definition ready_manager :: manager where
  "ready_manager = modify 0 (\<lambda>t. t\<lparr>ready := True\<rparr>) unready_manager"

text \<open>A header bundle equal to what a new job has.\<close>

definition blank_header :: HeaderSettings where
  "blank_header = \<lparr> HeaderSettings.user_agent = [], HeaderSettings.cookie = [] \<rparr>"

text \<open>Settings bundles with values in every field, and the settings of a job for a room.\<close>

definition example_output :: OutputSettings where
  "example_output = \<lparr> OutputSettings.out_dir = ''/rec'',
       OutputSettings.path_template = ''{roomid}/{title}'',
       OutputSettings.filesize_limit = 0, OutputSettings.duration_limit = 3600 \<rparr>"

definition example_danmaku :: DanmakuSettings where
  "example_danmaku = \<lparr> DanmakuSettings.danmu_uname = True,
       DanmakuSettings.record_gift_send = True, DanmakuSettings.record_free_gifts = False,
       DanmakuSettings.record_guard_buy = True, DanmakuSettings.record_super_chat = True,
       DanmakuSettings.save_raw_danmaku = False \<rparr>"

definition example_recorder :: RecorderSettings where
  "example_recorder = \<lparr> RecorderSettings.stream_format = ''flv'',
       RecorderSettings.quality_number = 10000, RecorderSettings.fmp4_stream_timeout = 10,
       RecorderSettings.read_timeout = 3, RecorderSettings.disconnection_timeout = 600,
       RecorderSettings.buffer_size = 8192, RecorderSettings.save_cover = False,
       RecorderSettings.cover_save_strategy = ''default'' \<rparr>"

definition example_postprocessing :: PostprocessingSettings where
  "example_postprocessing = \<lparr> PostprocessingSettings.remux_to_mp4 = False,
       PostprocessingSettings.inject_extra_metadata = True,
       PostprocessingSettings.delete_source = ''auto'' \<rparr>"

definition example_header :: HeaderSettings where
  "example_header = \<lparr> HeaderSettings.user_agent = ''Mozilla/5.0'',
       HeaderSettings.cookie = ''sid=1'' \<rparr>"

definition example_settings :: "int \<Rightarrow> TaskSettings" where
  "example_settings room =
     \<lparr> room_id = room, enable_monitor = True, enable_recorder = False,
       header = example_header, output' = example_output, danmaku = example_danmaku,
       recorder = example_recorder, postprocessing = example_postprocessing \<rparr>"

text \<open>The setup of every job times out after 30 time units.\<close>

definition env_timeout :: env where
  "env_timeout = \<lparr> outcome = (\<lambda>_ _ op. if op = Setup then Some TimeoutError else None),
                   duration = (\<lambda>_ _ op. if op = Setup then 30 else 0),
                   answer = (\<lambda>_ _ _. False) \<rparr>"

text \<open>The setup of the second job created fails for good; every other call returns.\<close>

definition env_second_fails :: env where
  "env_second_fails =
     \<lparr> outcome = (\<lambda>_ task op. if task = 1 \<and> op = Setup then Some (JobError ''setup failed'')
                              else None),
       duration = (\<lambda>_ _ _. 0), answer = (\<lambda>_ _ _. False) \<rparr>"

text \<open>The setup of every job is cancelled.\<close>

definition env_cancelled :: env where
  "env_cancelled = \<lparr> outcome = (\<lambda>_ _ op. if op = Setup then Some CancelledError else None),
                     duration = (\<lambda>_ _ _. 0), answer = (\<lambda>_ _ _. False) \<rparr>"



text \<open>
  Settings lists: three rooms, the same room twice followed by another, and two rooms.
\<close>

definition two_rooms :: "TaskSettings list" where
  "two_rooms = [example_settings 7, example_settings 8]"

definition three_rooms :: "TaskSettings list" where
  "three_rooms = [example_settings 7, example_settings 8, example_settings 9]"

definition same_room_twice :: "TaskSettings list" where
  "same_room_twice = [example_settings 7, example_settings 7, example_settings 8]"

text \<open>
  The states that \<open>load_all_tasks\<close> passes through under \<open>env_second_fails\<close>: after the
  first job is created, after the creation of the second job (for the given room) has
  failed, after that failure has been submitted, and after the third job is created.
\<close>

definition after_first :: manager where
  "after_first = snd (add_task env_second_fails (example_settings 7) empty_manager)"

definition failed_second :: "int \<Rightarrow> manager" where
  "failed_second room = snd (add_task env_second_fails (example_settings room) after_first)"

definition after_second :: "int \<Rightarrow> manager" where
  "after_second room = submit_exception (JobError ''setup failed'') (failed_second room)"

definition after_third :: "int \<Rightarrow> int \<Rightarrow> manager" where
  "after_third room room' =
     snd (add_task env_second_fails (example_settings room') (after_second room))"

text \<open>The state in which a cancelled creation of a job for room 7 leaves the empty manager.\<close>

definition cancelled_first :: manager where
  "cancelled_first = snd (add_task env_cancelled (example_settings 7) empty_manager)"

subsection \<open>Vocabulary of the properties\<close>

text \<open>
  Every operation that looks the job up with \<open>check_ready=True\<close> raises the exception
  \<open>e\<close> and leaves the state as it was. The two operations with a \<open>force\<close> argument
  appear with both values.
\<close>

definition gated_operations_raise :: "env \<Rightarrow> int \<Rightarrow> manager \<Rightarrow> error \<Rightarrow> bool" where
  "gated_operations_raise env room s e =
     (remove_task env room s = (Inl e, s) \<and>
      start_task env room s = (Inl e, s) \<and>
      stop_task env room False s = (Inl e, s) \<and>
      stop_task env room True s = (Inl e, s) \<and>
      enable_task_monitor env room s = (Inl e, s) \<and>
      disable_task_monitor env room s = (Inl e, s) \<and>
      enable_task_recorder env room s = (Inl e, s) \<and>
      disable_task_recorder env room False s = (Inl e, s) \<and>
      disable_task_recorder env room True s = (Inl e, s) \<and>
      get_task_data room s = (Inl e, s) \<and>
      get_task_param room s = (Inl e, s) \<and>
      get_task_metadata room s = (Inl e, s) \<and>
      get_task_stream_profile room s = (Inl e, s) \<and>
      get_task_video_file_details room s = (Inl e, s) \<and>
      get_task_danmaku_file_details room s = (Inl e, s) \<and>
      can_cut_stream env room s = (Inl e, s) \<and>
      cut_stream env room s = (Inl e, s) \<and>
      update_task_info env room s = (Inl e, s))"

text \<open>The calls that \<open>remove_task\<close> and \<open>start_task\<close> make on the job, in order.\<close>

definition remove_calls :: "nat \<Rightarrow> event list" where
  "remove_calls task =
     [Call task (DisableRecorder True), Call task DisableMonitor, Call task Destroy]"

definition start_calls :: "nat \<Rightarrow> event list" where
  "start_calls task = [Call task UpdateInfo, Call task EnableMonitor, Call task EnableRecorder]"






text \<open>
  While \<open>room\<close> is registered with the job \<open>task\<close>, the action leaves the registry, the
  allocation counter, the pauses, the submitted exceptions and every other job alone,
  and its calls are all on \<open>task\<close>.
\<close>

definition confined :: "int \<Rightarrow> nat \<Rightarrow> 'a action \<Rightarrow> bool" where
  "confined room task m =
     (\<forall>s. map_of (tasks s) room = Some task \<longrightarrow>
          tasks (snd (m s)) = tasks s \<and> next_ref (snd (m s)) = next_ref s \<and>
          waits (snd (m s)) = waits s \<and> submitted (snd (m s)) = submitted s \<and>
          (\<forall>h. h \<noteq> task \<longrightarrow> heap (snd (m s)) h = heap s h) \<and>
          (\<exists>evs. trace (snd (m s)) = trace s @ evs \<and> set evs \<subseteq> range (Call task)))"

text \<open>
  From \<open>s\<close> to \<open>s'\<close> only the entry of \<open>room\<close> may have changed in the registry, nothing
  was submitted, the jobs allocated before \<open>s\<close> are as they were, and every call added to
  the trace is on a job allocated in between.
\<close>

definition grows :: "int \<Rightarrow> manager \<Rightarrow> manager \<Rightarrow> bool" where
  "grows room s s' =
     (next_ref s \<le> next_ref s' \<and> submitted s' = submitted s \<and>
      (\<forall>other. other \<noteq> room \<longrightarrow> map_of (tasks s') other = map_of (tasks s) other) \<and>
      (\<forall>h. h < next_ref s \<longrightarrow> heap s' h = heap s h) \<and>
      (\<exists>evs. trace s' = trace s @ evs \<and>
             (\<forall>ev \<in> set evs. \<exists>h op. ev = Call h op \<and> next_ref s \<le> h \<and> h < next_ref s')))"

text \<open>The effective configuration that the settings of a job ask for.\<close>

definition settings_param :: "TaskSettings \<Rightarrow> TaskParam" where
  "settings_param settings =
     \<lparr> TaskParam.out_dir = OutputSettings.out_dir (output' settings),
       TaskParam.path_template = OutputSettings.path_template (output' settings),
       TaskParam.filesize_limit = OutputSettings.filesize_limit (output' settings),
       TaskParam.duration_limit = OutputSettings.duration_limit (output' settings),
       TaskParam.user_agent = HeaderSettings.user_agent (header settings),
       TaskParam.cookie = HeaderSettings.cookie (header settings),
       TaskParam.danmu_uname = DanmakuSettings.danmu_uname (danmaku settings),
       TaskParam.record_gift_send = DanmakuSettings.record_gift_send (danmaku settings),
       TaskParam.record_free_gifts = DanmakuSettings.record_free_gifts (danmaku settings),
       TaskParam.record_guard_buy = DanmakuSettings.record_guard_buy (danmaku settings),
       TaskParam.record_super_chat = DanmakuSettings.record_super_chat (danmaku settings),
       TaskParam.save_cover = RecorderSettings.save_cover (recorder settings),
       TaskParam.cover_save_strategy = RecorderSettings.cover_save_strategy (recorder settings),
       TaskParam.save_raw_danmaku = DanmakuSettings.save_raw_danmaku (danmaku settings),
       TaskParam.stream_format = RecorderSettings.stream_format (recorder settings),
       TaskParam.quality_number = RecorderSettings.quality_number (recorder settings),
       TaskParam.fmp4_stream_timeout = RecorderSettings.fmp4_stream_timeout (recorder settings),
       TaskParam.read_timeout = RecorderSettings.read_timeout (recorder settings),
       TaskParam.disconnection_timeout =
         RecorderSettings.disconnection_timeout (recorder settings),
       TaskParam.buffer_size = RecorderSettings.buffer_size (recorder settings),
       TaskParam.remux_to_mp4 = PostprocessingSettings.remux_to_mp4 (postprocessing settings),
       TaskParam.inject_extra_metadata =
         PostprocessingSettings.inject_extra_metadata (postprocessing settings),
       TaskParam.delete_source = PostprocessingSettings.delete_source (postprocessing settings) \<rparr>"

subsection \<open>The retry policy in the words of the specification\<close>

text \<open>
  The retryable error kinds are timeout, connection-layer and remote-API-request errors.
\<close>

definition transient :: "error \<Rightarrow> bool" where
  "transient e = (e = TimeoutError \<or> (\<exists>m. e = ClientError m) \<or> (\<exists>m. e = ApiRequestError m))"

text \<open>The backoff is exponential, with a wait of at most 10 time units per attempt.\<close>

definition backoff :: "nat \<Rightarrow> nat" where
  "backoff attempt_number = min (2 ^ (attempt_number - 1)) 10"

text \<open>
  A call that follows the policy, from attempt \<open>n\<close> in state \<open>s\<close>, the call having
  begun at time \<open>start\<close>. \<open>failed\<close> lists the attempts that were retried, each with its
  exception and the state it left: each raised a retryable exception less than 60 time
  units after the call began, and was followed by the backoff of its attempt. The last
  attempt gives the result of the call: it returns, or it raises an exception that is
  not retryable, or it raises when the 60 time units have passed; the exception and the
  state are those of that attempt.
\<close>

fun policy_run ::
  "env \<Rightarrow> TaskSettings \<Rightarrow> nat \<Rightarrow> nat \<Rightarrow> manager \<Rightarrow> (error \<times> manager) list \<Rightarrow>
   (error + unit) \<times> manager \<Rightarrow> bool" where
  "policy_run env settings start n s [] result =
     (add_task_once env settings s = result \<and>
      (case fst result of
         Inr _ \<Rightarrow> True
       | Inl e \<Rightarrow> \<not> transient e \<or> 60 \<le> now (snd result) - start))"
| "policy_run env settings start n s ((e, after) # later) result =
     (add_task_once env settings s = (Inl e, after) \<and> transient e \<and> now after - start < 60 \<and>
      policy_run env settings start (Suc n)
        (after\<lparr>now := now after + backoff n, waits := waits after @ [backoff n]\<rparr>)
        later result)"

section \<open>Properties\<close>

subsection \<open>Sequencing and the concrete managers\<close>

lemma and_then_lift_Inl: "f s = Inl e \<Longrightarrow> and_then (lift f) g s = (Inl e, s)"
  by (simp add: and_then_def lift_def)

lemma and_then_lift_Inr: "f s = Inr a \<Longrightarrow> and_then (lift f) g s = g a s"
  by (simp add: and_then_def lift_def)

lemma lookup_Inr:
  "get_task room b s = Inr a \<Longrightarrow> and_then (lift (get_task room b)) g s = g a s"
  by (rule and_then_lift_Inr)

lemma lookup_Inl:
  "get_task room b s = Inl e \<Longrightarrow> and_then (lift (get_task room b)) g s = (Inl e, s)"
  by (rule and_then_lift_Inl)

lemma then_do_apply:
  "then_do m k s = (case m s of (Inl e, s') \<Rightarrow> (Inl e, s') | (Inr u, s') \<Rightarrow> k s')"
  by (simp add: then_do_def and_then_def)

lemma call_job_cases:
  assumes "call_job env task op s = (r, s')"
  shows "trace s' = trace s @ [Call task op]" and "tasks s' = tasks s"
    and "r = (case outcome env (trace s) task op of None \<Rightarrow> Inr () | Some e \<Rightarrow> Inl e)"
    and "next_ref s' = next_ref s" and "waits s' = waits s" and "submitted s' = submitted s"
  using assms
  by (auto simp: call_job_def modify_def Let_def split: option.splits if_splits)

lemma str_nat_digit: "n < 10 \<Longrightarrow> str_nat n = [digit_chars ! n]"
  by (simp add: str_nat.simps)

lemma unready_manager_simps:
  "tasks unready_manager = [(7, 0)]"
  "ready (heap unready_manager 0) = False"
  "trace unready_manager = []"
  by (simp_all add: unready_manager_def set_task_def alloc_task_def empty_manager_def
      new_record_task_def)

lemma str_int_7: "str_int 7 = ''7''"
  by (simp add: str_int_def str_nat_digit digit_chars_def)

lemma ready_manager_simps:
  "tasks ready_manager = [(7, 0)]"
  "ready (heap ready_manager 0) = True"
  "trace ready_manager = []"
  by (simp_all add: ready_manager_def modify_def unready_manager_def set_task_def
      alloc_task_def empty_manager_def new_record_task_def)


lemma set_attr_cases:
  assumes "set_attr env task name f s = (r, s')"
  shows "trace s' = trace s @ [Call task (SetAttr name)]" and "tasks s' = tasks s"
    and "r = (case outcome env (trace s) task (SetAttr name) of None \<Rightarrow> Inr () | Some e \<Rightarrow> Inl e)"
    and "next_ref s' = next_ref s" and "waits s' = waits s" and "submitted s' = submitted s"
    and "heap s' = (if r = Inr () then (heap s)(task := f (heap s task)) else heap s)"
  using assms
  by (auto simp: set_attr_def call_job_def modify_def Let_def split: option.splits)

text \<open>The definitions that a run on a concrete manager unfolds.\<close>

lemmas eval_defs = add_task_def add_task_once_def add_task_steps_def alloc_task_def set_task_def
  del_task_def then_do_apply call_job_def set_attr_def modify_def ret_def and_then_def lift_def
  get_task_def is_Exception_def
  settings_manager_apply_task_header_settings_def
  settings_manager_apply_task_output_settings_def
  settings_manager_apply_task_danmaku_settings_def
  settings_manager_apply_task_recorder_settings_def
  settings_manager_apply_task_postprocessing_settings_def
  apply_task_header_settings_def apply_task_output_settings_def
  apply_task_danmaku_settings_def apply_task_recorder_settings_def
  apply_task_postprocessing_settings_def
  example_settings_def example_header_def example_output_def example_danmaku_def
  example_recorder_def example_postprocessing_def new_record_task_def
  empty_manager_def Let_def

lemmas retry_defs = retrying.simps sleep_def stop_after_delay_def wait_exponential_def
  retry_if_exception_type_def

lemmas run_defs = after_third_def after_second_def failed_second_def after_first_def
  submit_exception_def eval_defs env_second_fails_def retry_defs

subsection \<open>Actions confined to one job\<close>

lemma confinedD:
  assumes "confined room task m" and "map_of (tasks s) room = Some task" and "m s = (r, s')"
  shows "tasks s' = tasks s" and "next_ref s' = next_ref s" and "waits s' = waits s"
    and "submitted s' = submitted s"
    and "\<And>h. h \<noteq> task \<Longrightarrow> heap s' h = heap s h"
    and "\<exists>evs. trace s' = trace s @ evs \<and> set evs \<subseteq> range (Call task)"
proof -
  from assms(1,2) have all: "tasks (snd (m s)) = tasks s \<and> next_ref (snd (m s)) = next_ref s \<and>
          waits (snd (m s)) = waits s \<and> submitted (snd (m s)) = submitted s \<and>
          (\<forall>h. h \<noteq> task \<longrightarrow> heap (snd (m s)) h = heap s h) \<and>
          (\<exists>evs. trace (snd (m s)) = trace s @ evs \<and> set evs \<subseteq> range (Call task))"
    unfolding confined_def by blast
  from all assms(3) show "tasks s' = tasks s" "next_ref s' = next_ref s" "waits s' = waits s"
    "submitted s' = submitted s"
    "\<exists>evs. trace s' = trace s @ evs \<and> set evs \<subseteq> range (Call task)"
    by simp_all
  from all assms(3) show "\<And>h. h \<noteq> task \<Longrightarrow> heap s' h = heap s h"
    by simp
qed

lemma confined_call_job: "confined room task (call_job env task op)"
  by (simp add: confined_def call_job_def modify_def Let_def split: option.split)

lemma confined_set_attr: "confined room task (set_attr env task name f)"
  unfolding confined_def
proof (intro allI impI)
  fix s
  obtain r s' where r: "set_attr env task name f s = (r, s')"
    by (cases "set_attr env task name f s")
  note c = set_attr_cases[OF r]
  have "set [Call task (SetAttr name)] \<subseteq> range (Call task)" by simp
  with c(1) have "\<exists>evs. trace s' = trace s @ evs \<and> set evs \<subseteq> range (Call task)"
    by blast
  with c r show "tasks (snd (set_attr env task name f s)) = tasks s \<and>
        next_ref (snd (set_attr env task name f s)) = next_ref s \<and>
        waits (snd (set_attr env task name f s)) = waits s \<and>
        submitted (snd (set_attr env task name f s)) = submitted s \<and>
        (\<forall>h. h \<noteq> task \<longrightarrow> heap (snd (set_attr env task name f s)) h = heap s h) \<and>
        (\<exists>evs. trace (snd (set_attr env task name f s)) = trace s @ evs \<and>
               set evs \<subseteq> range (Call task))"
    by simp
qed

lemma confined_ret: "confined room task (ret a)"
  by (simp add: confined_def ret_def)

lemma confined_skip: "confined room task (\<lambda>s. (Inr a, s))"
  by (simp add: confined_def)

lemma confined_if:
  "confined room task m \<Longrightarrow> confined room task k \<Longrightarrow>
   confined room task (\<lambda>s. if c s then m s else k s)"
  by (simp add: confined_def)

lemma confined_then_do:
  assumes m: "confined room task m" and k: "confined room task k"
  shows "confined room task (then_do m k)"
  unfolding confined_def
proof (intro allI impI)
  fix s :: manager
  assume reg: "map_of (tasks s) room = Some task"
  obtain r s1 where r: "m s = (r, s1)"
    by (cases "m s")
  note a = confinedD[OF m reg r]
  show "tasks (snd (then_do m k s)) = tasks s \<and>
        next_ref (snd (then_do m k s)) = next_ref s \<and>
        waits (snd (then_do m k s)) = waits s \<and>
        submitted (snd (then_do m k s)) = submitted s \<and>
        (\<forall>h. h \<noteq> task \<longrightarrow> heap (snd (then_do m k s)) h = heap s h) \<and>
        (\<exists>evs. trace (snd (then_do m k s)) = trace s @ evs \<and> set evs \<subseteq> range (Call task))"
  proof (cases r)
    case (Inl e)
    with r a show ?thesis by (simp add: then_do_apply)
  next
    case (Inr v)
    obtain r2 s2 where r2: "k s1 = (r2, s2)"
      by (cases "k s1")
    from reg a(1) have reg1: "map_of (tasks s1) room = Some task" by simp
    note b = confinedD[OF k reg1 r2]
    from a(6) b(6) obtain evs1 evs2 where
      "trace s1 = trace s @ evs1" "set evs1 \<subseteq> range (Call task)"
      "trace s2 = trace s1 @ evs2" "set evs2 \<subseteq> range (Call task)"
      by blast
    then have "trace s2 = trace s @ (evs1 @ evs2) \<and> set (evs1 @ evs2) \<subseteq> range (Call task)"
      by simp
    then have "\<exists>evs. trace s2 = trace s @ evs \<and> set evs \<subseteq> range (Call task)"
      by blast
    with Inr r r2 a b show ?thesis by (simp add: then_do_apply)
  qed
qed

lemma confined_lookup:
  assumes f: "confined room task (f task)"
  shows "confined room task (and_then (lift (get_task room b)) f)"
  unfolding confined_def
proof (intro allI impI)
  fix s :: manager
  assume reg: "map_of (tasks s) room = Some task"
  let ?m = "and_then (lift (get_task room b)) f"
  show "tasks (snd (?m s)) = tasks s \<and> next_ref (snd (?m s)) = next_ref s \<and>
        waits (snd (?m s)) = waits s \<and> submitted (snd (?m s)) = submitted s \<and>
        (\<forall>h. h \<noteq> task \<longrightarrow> heap (snd (?m s)) h = heap s h) \<and>
        (\<exists>evs. trace (snd (?m s)) = trace s @ evs \<and> set evs \<subseteq> range (Call task))"
  proof (cases "get_task room b s")
    case (Inl e)
    then show ?thesis by (simp add: lookup_Inl)
  next
    case (Inr found)
    with reg have "found = task"
      by (simp add: get_task_def split: if_splits)
    with Inr have "?m s = f task s" by (simp add: lookup_Inr)
    moreover obtain r s' where r: "f task s = (r, s')"
      by (cases "f task s")
    moreover note confinedD[OF f reg r]
    ultimately show ?thesis by simp
  qed
qed

lemma confined_header: "confined room task (apply_task_header_settings env room st u)"
  unfolding apply_task_header_settings_def
proof (rule confined_lookup)
  have last: "confined room task (if u then call_job env task UpdateSession else ret ())"
    by (simp add: confined_call_job confined_ret)
  show "confined room task (\<lambda>s. if user_agent (heap s task) = HeaderSettings.user_agent st \<and>
          cookie (heap s task) = HeaderSettings.cookie st
       then (Inr (), s)
       else
         then_do (set_attr env task ''user_agent''
                    (\<lambda>t. t\<lparr>user_agent := HeaderSettings.user_agent st\<rparr>))
        (then_do (set_attr env task ''cookie''
                    (\<lambda>t. t\<lparr>cookie := HeaderSettings.cookie st\<rparr>))
                 (if u then call_job env task UpdateSession else ret ())) s)"
    by (intro confined_if confined_skip confined_then_do confined_set_attr last)
qed

lemma confined_output: "confined room task (apply_task_output_settings env room st)"
  unfolding apply_task_output_settings_def
  by (intro confined_lookup confined_then_do confined_set_attr)

lemma confined_danmaku: "confined room task (apply_task_danmaku_settings env room st)"
  unfolding apply_task_danmaku_settings_def
  by (intro confined_lookup confined_then_do confined_set_attr)

lemma confined_recorder: "confined room task (apply_task_recorder_settings env room st)"
  unfolding apply_task_recorder_settings_def
  by (intro confined_lookup confined_then_do confined_set_attr)

lemma confined_postprocessing:
  "confined room task (apply_task_postprocessing_settings env room st)"
  unfolding apply_task_postprocessing_settings_def
  by (intro confined_lookup confined_then_do confined_set_attr)

lemma confined_steps:
  "confined (room_id settings) task (add_task_steps env settings task)"
  unfolding add_task_steps_def settings_manager_apply_task_header_settings_def
    settings_manager_apply_task_output_settings_def
    settings_manager_apply_task_danmaku_settings_def
    settings_manager_apply_task_recorder_settings_def
    settings_manager_apply_task_postprocessing_settings_def
  by (intro confined_then_do confined_header confined_output confined_danmaku
        confined_recorder confined_postprocessing confined_call_job)
     (simp_all add: confined_call_job confined_ret)

subsection \<open>What one attempt of \<open>add_task\<close> changes\<close>

lemma add_task_once_unfold:
  fixes env settings s
  defines "room \<equiv> room_id settings"
  defines "s2 \<equiv> set_task room (next_ref s) (snd (alloc_task room s))"
  assumes steps: "add_task_steps env settings (next_ref s) s2 = (r3, s3)"
  shows "add_task_once env settings s =
      (case r3 of Inr u \<Rightarrow> (Inr u, s3)
       | Inl e \<Rightarrow> if is_Exception e then (Inl e, s3\<lparr>tasks := AList.delete room (tasks s3)\<rparr>)
                  else (Inl e, s3))"
    and "tasks s3 = AList.update room (next_ref s) (tasks s)"
    and "next_ref s3 = Suc (next_ref s)" and "waits s3 = waits s"
    and "submitted s3 = submitted s"
    and "\<And>h. h \<noteq> next_ref s \<Longrightarrow> heap s3 h = heap s h"
    and "\<exists>evs. trace s3 = trace s @ evs \<and> set evs \<subseteq> range (Call (next_ref s))"
proof -
  have s2: "tasks s2 = AList.update room (next_ref s) (tasks s)"
    "next_ref s2 = Suc (next_ref s)" "waits s2 = waits s" "submitted s2 = submitted s"
    "trace s2 = trace s" "\<And>h. h \<noteq> next_ref s \<Longrightarrow> heap s2 h = heap s h"
    by (simp_all add: s2_def set_task_def alloc_task_def)
  have reg: "map_of (tasks s2) (room_id settings) = Some (next_ref s)"
    by (simp add: s2 update_conv' room_def)
  note f = confinedD[OF confined_steps reg steps]
  show t3: "tasks s3 = AList.update room (next_ref s) (tasks s)"
    by (simp add: f(1) s2)
  show "next_ref s3 = Suc (next_ref s)" "waits s3 = waits s" "submitted s3 = submitted s"
    by (simp_all add: f s2)
  show "\<And>h. h \<noteq> next_ref s \<Longrightarrow> heap s3 h = heap s h"
    by (simp add: f(5) s2(6))
  show "\<exists>evs. trace s3 = trace s @ evs \<and> set evs \<subseteq> range (Call (next_ref s))"
    using f(6) by (simp add: s2)
  have registered: "map_of (tasks s3) room \<noteq> None"
    by (simp add: t3 update_conv')
  show "add_task_once env settings s =
      (case r3 of Inr u \<Rightarrow> (Inr u, s3)
       | Inl e \<Rightarrow> if is_Exception e then (Inl e, s3\<lparr>tasks := AList.delete room (tasks s3)\<rparr>)
                  else (Inl e, s3))"
    using registered
    by (auto simp: add_task_once_def alloc_task_def room_def
        steps[unfolded s2_def room_def alloc_task_def set_task_def, simplified]
        set_task_def del_task_def split: sum.splits)
qed

lemma add_task_once_effect:
  assumes res: "add_task_once env settings s = (r, s')"
  shows "next_ref s' = Suc (next_ref s)"
    and "waits s' = waits s"
    and "submitted s' = submitted s"
    and "\<exists>evs. trace s' = trace s @ evs \<and> set evs \<subseteq> range (Call (next_ref s))"
    and "r = Inr () \<Longrightarrow> tasks s' = AList.update (room_id settings) (next_ref s) (tasks s)"
    and "r = Inl e \<Longrightarrow> is_Exception e \<Longrightarrow> tasks s' = AList.delete (room_id settings) (tasks s)"
    and "r = Inl e \<Longrightarrow> \<not> is_Exception e \<Longrightarrow>
           tasks s' = AList.update (room_id settings) (next_ref s) (tasks s)"
    and "\<And>h. h \<noteq> next_ref s \<Longrightarrow> heap s' h = heap s h"
proof -
  let ?room = "room_id settings"
  let ?s2 = "set_task ?room (next_ref s) (snd (alloc_task ?room s))"
  obtain r3 s3 where steps: "add_task_steps env settings (next_ref s) ?s2 = (r3, s3)"
    by (cases "add_task_steps env settings (next_ref s) ?s2")
  note u = add_task_once_unfold[OF steps]
  have del: "AList.delete ?room (tasks s3) = AList.delete ?room (tasks s)"
    by (simp add: u(2) delete_update_same)
  show "next_ref s' = Suc (next_ref s)" "waits s' = waits s" "submitted s' = submitted s"
    "\<exists>evs. trace s' = trace s @ evs \<and> set evs \<subseteq> range (Call (next_ref s))"
    using u res by (auto split: sum.splits if_splits)
  show "r = Inr () \<Longrightarrow> tasks s' = AList.update ?room (next_ref s) (tasks s)"
    using u(1,2) res by (auto split: sum.splits if_splits)
  show "r = Inl e \<Longrightarrow> is_Exception e \<Longrightarrow> tasks s' = AList.delete ?room (tasks s)"
    using u(1) res del by (auto split: sum.splits if_splits)
  show "r = Inl e \<Longrightarrow> \<not> is_Exception e \<Longrightarrow>
           tasks s' = AList.update ?room (next_ref s) (tasks s)"
    using u(1,2) res by (auto split: sum.splits if_splits)
  show "\<And>h. h \<noteq> next_ref s \<Longrightarrow> heap s' h = heap s h"
    using u(1,6) res by (auto split: sum.splits if_splits)
qed

subsection \<open>What a successful creation writes\<close>

lemma then_do_Inr:
  assumes "then_do m k s = (Inr u, s')"
  obtains s1 where "m s = (Inr (), s1)" and "k s1 = (Inr u, s')"
proof -
  obtain r s1 where r: "m s = (r, s1)"
    by (cases "m s")
  with assms have "r = Inr ()" "k s1 = (Inr u, s')"
    by (cases r; simp add: then_do_apply)+
  with r that show thesis by simp
qed

lemma set_attr_Inr:
  assumes "set_attr env task name f s = (Inr (), s')"
  shows "heap s' = (heap s)(task := f (heap s task)) \<and> tasks s' = tasks s"
  using set_attr_cases(2,7)[OF assms] by simp

lemma call_job_Inr:
  assumes "call_job env task op s = (Inr (), s')"
  shows "tasks s' = tasks s"
    and "heap s' = (if op = Setup then (heap s)(task := (heap s task)\<lparr>ready := True\<rparr>)
                    else heap s)"
  using assms
  by (auto simp: call_job_def modify_def Let_def split: option.splits if_splits)

lemma optional_call_Inr:
  assumes "(if c then call_job env task op else ret ()) s = (Inr (), s')" and "op \<noteq> Setup"
  shows "tasks s' = tasks s" and "heap s' = heap s"
  using assms call_job_Inr[of env task op s s']
  by (auto simp: ret_def split: if_splits)

lemma header_applied:
  assumes fin: "apply_task_header_settings env room st False s = (Inr (), s')"
    and reg: "map_of (tasks s) room = Some task"
  shows "tasks s' = tasks s"
    and "heap s' task = (heap s task)\<lparr>user_agent := HeaderSettings.user_agent st,
                                       cookie := HeaderSettings.cookie st\<rparr>"
proof -
  from reg have found: "get_task room False s = Inr task"
    by (simp add: get_task_def)
  show "tasks s' = tasks s"
    using confinedD(1)[OF confined_header reg fin] .
  show "heap s' task = (heap s task)\<lparr>user_agent := HeaderSettings.user_agent st,
                                       cookie := HeaderSettings.cookie st\<rparr>"
  proof (cases "user_agent (heap s task) = HeaderSettings.user_agent st \<and>
                cookie (heap s task) = HeaderSettings.cookie st")
    case True
    with fin found have "s' = s"
      by (simp add: apply_task_header_settings_def lookup_Inr)
    with True show ?thesis by simp
  next
    case False
    with fin found have chain:
      "then_do (set_attr env task ''user_agent''
                    (\<lambda>t. t\<lparr>user_agent := HeaderSettings.user_agent st\<rparr>))
        (then_do (set_attr env task ''cookie''
                    (\<lambda>t. t\<lparr>cookie := HeaderSettings.cookie st\<rparr>))
                 (ret ())) s = (Inr (), s')"
      by (simp add: apply_task_header_settings_def lookup_Inr)
    then show ?thesis
      by (auto elim!: then_do_Inr dest!: set_attr_Inr simp: ret_def)
  qed
qed

lemma output_applied:
  assumes fin: "apply_task_output_settings env room st s = (Inr (), s')"
    and reg: "map_of (tasks s) room = Some task"
  shows "tasks s' = tasks s"
    and "heap s' task = (heap s task)\<lparr>
          out_dir := OutputSettings.out_dir st,
          path_template := OutputSettings.path_template st,
          filesize_limit := OutputSettings.filesize_limit st,
          duration_limit := OutputSettings.duration_limit st\<rparr>"
proof -
  from reg have found: "get_task room False s = Inr task"
    by (simp add: get_task_def)
  show "tasks s' = tasks s"
    using confinedD(1)[OF confined_output reg fin] .
  from fin show "heap s' task = (heap s task)\<lparr>
          out_dir := OutputSettings.out_dir st,
          path_template := OutputSettings.path_template st,
          filesize_limit := OutputSettings.filesize_limit st,
          duration_limit := OutputSettings.duration_limit st\<rparr>"
    unfolding apply_task_output_settings_def lookup_Inr[OF found]
    by (auto elim!: then_do_Inr dest!: set_attr_Inr)
qed

lemma danmaku_applied:
  assumes fin: "apply_task_danmaku_settings env room st s = (Inr (), s')"
    and reg: "map_of (tasks s) room = Some task"
  shows "tasks s' = tasks s"
    and "heap s' task = (heap s task)\<lparr>
          danmu_uname := DanmakuSettings.danmu_uname st,
          record_gift_send := DanmakuSettings.record_gift_send st,
          record_free_gifts := DanmakuSettings.record_free_gifts st,
          record_guard_buy := DanmakuSettings.record_guard_buy st,
          record_super_chat := DanmakuSettings.record_super_chat st,
          save_raw_danmaku := DanmakuSettings.save_raw_danmaku st\<rparr>"
proof -
  from reg have found: "get_task room False s = Inr task"
    by (simp add: get_task_def)
  show "tasks s' = tasks s"
    using confinedD(1)[OF confined_danmaku reg fin] .
  from fin show "heap s' task = (heap s task)\<lparr>
          danmu_uname := DanmakuSettings.danmu_uname st,
          record_gift_send := DanmakuSettings.record_gift_send st,
          record_free_gifts := DanmakuSettings.record_free_gifts st,
          record_guard_buy := DanmakuSettings.record_guard_buy st,
          record_super_chat := DanmakuSettings.record_super_chat st,
          save_raw_danmaku := DanmakuSettings.save_raw_danmaku st\<rparr>"
    unfolding apply_task_danmaku_settings_def lookup_Inr[OF found]
    by (auto elim!: then_do_Inr dest!: set_attr_Inr)
qed

lemma recorder_applied:
  assumes fin: "apply_task_recorder_settings env room st s = (Inr (), s')"
    and reg: "map_of (tasks s) room = Some task"
  shows "tasks s' = tasks s"
    and "heap s' task = (heap s task)\<lparr>
          stream_format := RecorderSettings.stream_format st,
          quality_number := RecorderSettings.quality_number st,
          fmp4_stream_timeout := RecorderSettings.fmp4_stream_timeout st,
          read_timeout := RecorderSettings.read_timeout st,
          disconnection_timeout := RecorderSettings.disconnection_timeout st,
          buffer_size := RecorderSettings.buffer_size st,
          save_cover := RecorderSettings.save_cover st,
          cover_save_strategy := RecorderSettings.cover_save_strategy st\<rparr>"
proof -
  from reg have found: "get_task room False s = Inr task"
    by (simp add: get_task_def)
  show "tasks s' = tasks s"
    using confinedD(1)[OF confined_recorder reg fin] .
  from fin show "heap s' task = (heap s task)\<lparr>
          stream_format := RecorderSettings.stream_format st,
          quality_number := RecorderSettings.quality_number st,
          fmp4_stream_timeout := RecorderSettings.fmp4_stream_timeout st,
          read_timeout := RecorderSettings.read_timeout st,
          disconnection_timeout := RecorderSettings.disconnection_timeout st,
          buffer_size := RecorderSettings.buffer_size st,
          save_cover := RecorderSettings.save_cover st,
          cover_save_strategy := RecorderSettings.cover_save_strategy st\<rparr>"
    unfolding apply_task_recorder_settings_def lookup_Inr[OF found]
    by (auto elim!: then_do_Inr dest!: set_attr_Inr)
qed

lemma postprocessing_applied:
  assumes fin: "apply_task_postprocessing_settings env room st s = (Inr (), s')"
    and reg: "map_of (tasks s) room = Some task"
  shows "tasks s' = tasks s"
    and "heap s' task = (heap s task)\<lparr>
          remux_to_mp4 := PostprocessingSettings.remux_to_mp4 st,
          inject_extra_metadata := PostprocessingSettings.inject_extra_metadata st,
          delete_source := PostprocessingSettings.delete_source st\<rparr>"
proof -
  from reg have found: "get_task room False s = Inr task"
    by (simp add: get_task_def)
  show "tasks s' = tasks s"
    using confinedD(1)[OF confined_postprocessing reg fin] .
  from fin show "heap s' task = (heap s task)\<lparr>
          remux_to_mp4 := PostprocessingSettings.remux_to_mp4 st,
          inject_extra_metadata := PostprocessingSettings.inject_extra_metadata st,
          delete_source := PostprocessingSettings.delete_source st\<rparr>"
    unfolding apply_task_postprocessing_settings_def lookup_Inr[OF found]
    by (auto elim!: then_do_Inr dest!: set_attr_Inr)
qed

lemma steps_configure:
  assumes fin: "add_task_steps env settings task s = (Inr (), s')"
    and reg: "map_of (tasks s) (room_id settings) = Some task"
  shows "make_task_param (heap s' task) = settings_param settings"
proof -
  let ?room = "room_id settings"
  from fin obtain s1 s2 s3 s4 s5 s6 s7 where
    h: "apply_task_header_settings env ?room (header settings) False s = (Inr (), s1)"
    and su: "call_job env task Setup s1 = (Inr (), s2)"
    and ou: "apply_task_output_settings env ?room (output' settings) s2 = (Inr (), s3)"
    and da: "apply_task_danmaku_settings env ?room (danmaku settings) s3 = (Inr (), s4)"
    and re: "apply_task_recorder_settings env ?room (recorder settings) s4 = (Inr (), s5)"
    and po: "apply_task_postprocessing_settings env ?room (postprocessing settings) s5
               = (Inr (), s6)"
    and mo: "(if enable_monitor settings then call_job env task EnableMonitor else ret ()) s6
               = (Inr (), s7)"
    and rc: "(if enable_recorder settings then call_job env task EnableRecorder else ret ()) s7
               = (Inr (), s')"
    unfolding add_task_steps_def settings_manager_apply_task_header_settings_def
      settings_manager_apply_task_output_settings_def
      settings_manager_apply_task_danmaku_settings_def
      settings_manager_apply_task_recorder_settings_def
      settings_manager_apply_task_postprocessing_settings_def
    by (elim then_do_Inr)
  note a1 = header_applied[OF h reg]
  from reg a1(1) have reg1: "map_of (tasks s1) ?room = Some task" by simp
  note a2 = call_job_Inr[OF su]
  from reg1 a2(1) have reg2: "map_of (tasks s2) ?room = Some task" by simp
  note a3 = output_applied[OF ou reg2]
  from reg2 a3(1) have reg3: "map_of (tasks s3) ?room = Some task" by simp
  note a4 = danmaku_applied[OF da reg3]
  from reg3 a4(1) have reg4: "map_of (tasks s4) ?room = Some task" by simp
  note a5 = recorder_applied[OF re reg4]
  from reg4 a5(1) have reg5: "map_of (tasks s5) ?room = Some task" by simp
  note a6 = postprocessing_applied[OF po reg5]
  have a7: "heap s7 = heap s6"
    by (rule optional_call_Inr(2)[OF mo]) simp
  have a8: "heap s' = heap s7"
    by (rule optional_call_Inr(2)[OF rc]) simp
  show ?thesis
    by (simp add: a8 a7 a6(2) a5(2) a4(2) a3(2) a2(2) a1(2)
        make_task_param_def settings_param_def)
qed

lemma add_task_once_configures:
  assumes fin: "add_task_once env settings s = (Inr (), s')"
  shows "make_task_param (heap s' (next_ref s)) = settings_param settings"
proof -
  let ?room = "room_id settings"
  let ?s2 = "set_task ?room (next_ref s) (snd (alloc_task ?room s))"
  obtain r3 s3 where steps: "add_task_steps env settings (next_ref s) ?s2 = (r3, s3)"
    by (cases "add_task_steps env settings (next_ref s) ?s2")
  note u = add_task_once_unfold[OF steps]
  from u(1) fin have "r3 = Inr ()" "s3 = s'"
    by (auto split: sum.splits if_splits)
  with steps have ok: "add_task_steps env settings (next_ref s) ?s2 = (Inr (), s')"
    by simp
  have reg: "map_of (tasks ?s2) ?room = Some (next_ref s)"
    by (simp add: set_task_def alloc_task_def update_conv')
  show ?thesis by (rule steps_configure[OF ok reg])
qed

subsection \<open>What the retry loop changes\<close>

lemma retrying_returns:
  "add_task_once env st s = (Inr u, s1) \<Longrightarrow> retrying env st start n s = (Inr u, s1)"
  by (simp add: retrying.simps[of env st start n s])

lemma retrying_gives_up:
  "add_task_once env st s = (Inl e, s1) \<Longrightarrow>
   \<not> retry_if_exception_type e \<or> stop_after_delay (now s1 - start) \<Longrightarrow>
   retrying env st start n s = (Inl e, s1)"
  by (auto simp: retrying.simps[of env st start n s])

lemma retrying_tries_again:
  "add_task_once env st s = (Inl e, s1) \<Longrightarrow>
   retry_if_exception_type e \<and> \<not> stop_after_delay (now s1 - start) \<Longrightarrow>
   retrying env st start n s
     = retrying env st start (Suc n) (sleep (wait_exponential n) s1)"
  by (simp add: retrying.simps[of env st start n s])

lemma retrying_last_attempt:
  assumes res: "retrying env st start n s = (r, s')"
    and step: "\<forall>s r s'. add_task_once env st s = (r, s') \<longrightarrow> R s s'"
    and slp: "\<And>s d. R s (sleep d s)"
    and refl: "\<And>s. R s s"
    and trans: "\<And>a b c. R a b \<Longrightarrow> R b c \<Longrightarrow> R a c"
  shows "\<exists>s_last. R s s_last \<and> add_task_once env st s_last = (r, s') \<and>
           (\<forall>e. r = Inl e \<longrightarrow>
                \<not> retry_if_exception_type e \<or> stop_after_delay (now s' - start))"
  using res step
proof (induction env st start n s rule: retrying.induct)
  case (1 env st start n s)
  obtain r1 s1 where once: "add_task_once env st s = (r1, s1)"
    by (cases "add_task_once env st s")
  show ?case
  proof (cases r1)
    case (Inr u)
    with once "1.prems"(1) have "r = r1" "s' = s1"
      by (simp_all add: retrying_returns)
    with once Inr refl show ?thesis by auto
  next
    case (Inl e)
    show ?thesis
    proof (cases "retry_if_exception_type e \<and> \<not> stop_after_delay (now s1 - start)")
      case False
      with once Inl "1.prems"(1) have "r = r1" "s' = s1"
        by (simp_all add: retrying_gives_up)
      with once Inl False refl show ?thesis by auto
    next
      case True
      with once Inl "1.prems"(1)
      have again: "retrying env st start (Suc n) (sleep (wait_exponential n) s1) = (r, s')"
        by (simp add: retrying_tries_again)
      from True have a: "\<not> \<not> retry_if_exception_type e"
        and b: "\<not> stop_after_delay (now s1 - start)" by simp_all
      from "1.IH"[OF once[symmetric] Inl a b again "1.prems"(2)]
      obtain s_last where l: "R (sleep (wait_exponential n) s1) s_last"
        "add_task_once env st s_last = (r, s')"
        "\<forall>e. r = Inl e \<longrightarrow> \<not> retry_if_exception_type e \<or> stop_after_delay (now s' - start)"
        by blast
      have "R s s_last"
      proof -
        from "1.prems"(2) once have "R s s1" by blast
        from trans[OF trans[OF this slp] l(1)] show ?thesis .
      qed
      with l show ?thesis by blast
    qed
  qed
qed

lemma retrying_waits:
  assumes res: "retrying env st start n s = (r, s')"
  shows "\<exists>k. waits s' = waits s @ map wait_exponential [n..<n + k]"
  using res
proof (induction env st start n s rule: retrying.induct)
  case (1 env st start n s)
  obtain r1 s1 where once: "add_task_once env st s = (r1, s1)"
    by (cases "add_task_once env st s")
  have w1: "waits s1 = waits s"
    by (rule add_task_once_effect(2)[OF once])
  show ?case
  proof (cases r1)
    case (Inr u)
    with once "1.prems" have "s' = s1"
      by (simp add: retrying_returns)
    with w1 have "waits s' = waits s @ map wait_exponential [n..<n + 0]" by simp
    then show ?thesis by blast
  next
    case (Inl e)
    show ?thesis
    proof (cases "retry_if_exception_type e \<and> \<not> stop_after_delay (now s1 - start)")
      case False
      with once Inl "1.prems" have "s' = s1"
        by (simp add: retrying_gives_up)
      with w1 have "waits s' = waits s @ map wait_exponential [n..<n + 0]" by simp
      then show ?thesis by blast
    next
      case True
      with once Inl "1.prems"
      have again: "retrying env st start (Suc n) (sleep (wait_exponential n) s1) = (r, s')"
        by (simp add: retrying_tries_again)
      from True have a: "\<not> \<not> retry_if_exception_type e"
        and b: "\<not> stop_after_delay (now s1 - start)" by simp_all
      from "1.IH"[OF once[symmetric] Inl a b again]
      obtain k where k: "waits s' = waits (sleep (wait_exponential n) s1)
                           @ map wait_exponential [Suc n..<Suc n + k]"
        by blast
      have "[n..<n + Suc k] = n # [Suc n..<n + Suc k]"
        by (rule upt_conv_Cons) simp
      then have "map wait_exponential [n..<n + Suc k]
                   = wait_exponential n # map wait_exponential [Suc n..<Suc n + k]"
        by (simp only: list.map add_Suc add_Suc_right)
      with k w1 have "waits s' = waits s @ map wait_exponential [n..<n + Suc k]"
        by (simp add: sleep_def del: upt_Suc)
      then show ?thesis by blast
    qed
  qed
qed

lemma grows_refl: "grows room s s"
  by (simp add: grows_def)

lemma grows_sleep: "grows room s (sleep d s)"
  by (simp add: grows_def sleep_def)

lemma grows_trans:
  assumes ab: "grows room a b" and bc: "grows room b c"
  shows "grows room a c"
proof -
  from ab obtain evs1 where 1: "trace b = trace a @ evs1"
    "\<forall>ev \<in> set evs1. \<exists>h op. ev = Call h op \<and> next_ref a \<le> h \<and> h < next_ref b"
    by (auto simp: grows_def)
  from bc obtain evs2 where 2: "trace c = trace b @ evs2"
    "\<forall>ev \<in> set evs2. \<exists>h op. ev = Call h op \<and> next_ref b \<le> h \<and> h < next_ref c"
    by (auto simp: grows_def)
  from ab bc have le: "next_ref a \<le> next_ref b" "next_ref b \<le> next_ref c"
    by (simp_all add: grows_def)
  have "\<forall>ev \<in> set (evs1 @ evs2). \<exists>h op. ev = Call h op \<and> next_ref a \<le> h \<and> h < next_ref c"
  proof
    fix ev assume "ev \<in> set (evs1 @ evs2)"
    then consider "ev \<in> set evs1" | "ev \<in> set evs2" by auto
    then show "\<exists>h op. ev = Call h op \<and> next_ref a \<le> h \<and> h < next_ref c"
    proof cases
      case 1
      with \<open>\<forall>ev \<in> set evs1. _\<close> obtain h op where
        "ev = Call h op" "next_ref a \<le> h" "h < next_ref b" by blast
      with le show ?thesis by auto
    next
      case 2
      with \<open>\<forall>ev \<in> set evs2. _\<close> obtain h op where
        "ev = Call h op" "next_ref b \<le> h" "h < next_ref c" by blast
      with le show ?thesis by auto
    qed
  qed
  moreover have "trace c = trace a @ (evs1 @ evs2)"
    using 1(1) 2(1) by simp
  ultimately have calls: "\<exists>evs. trace c = trace a @ evs \<and>
      (\<forall>ev \<in> set evs. \<exists>h op. ev = Call h op \<and> next_ref a \<le> h \<and> h < next_ref c)"
    by blast
  have old: "\<forall>h. h < next_ref a \<longrightarrow> heap c h = heap a h"
    using ab bc le by (auto simp: grows_def)
  from ab bc calls old show ?thesis
    by (simp add: grows_def)
qed

lemma grows_add_task_once:
  assumes once: "add_task_once env st s = (r, s')"
  shows "grows (room_id st) s s'"
proof -
  note f = add_task_once_effect[OF once]
  from f(4) obtain evs where evs: "trace s' = trace s @ evs"
    "set evs \<subseteq> range (Call (next_ref s))" by blast
  have calls: "\<forall>ev \<in> set evs. \<exists>h op. ev = Call h op \<and> next_ref s \<le> h \<and> h < next_ref s'"
    using evs(2) f(1) by auto
  have others: "\<forall>other. other \<noteq> room_id st \<longrightarrow>
                  map_of (tasks s') other = map_of (tasks s) other"
  proof (cases r)
    case (Inl e)
    show ?thesis
    proof (cases "is_Exception e")
      case True
      from f(6)[OF Inl True] show ?thesis by (simp add: delete_conv')
    next
      case False
      from f(7)[OF Inl False] show ?thesis by (simp add: update_conv')
    qed
  next
    case (Inr u)
    then have "r = Inr ()" by simp
    from f(5)[OF this] show ?thesis by (simp add: update_conv')
  qed
  have old: "\<forall>h. h < next_ref s \<longrightarrow> heap s' h = heap s h"
    using f(8) by simp
  from evs(1) calls others old f(1) f(3) show ?thesis
    unfolding grows_def by auto
qed

lemma add_task_last_attempt:
  assumes res: "add_task env st s = (r, s')"
  shows "\<exists>s_last. grows (room_id st) s s_last \<and> add_task_once env st s_last = (r, s') \<and>
           (\<forall>e. r = Inl e \<longrightarrow>
                \<not> retry_if_exception_type e \<or> stop_after_delay (now s' - now s))"
proof (rule retrying_last_attempt[where n = 1])
  show "retrying env st (now s) 1 s = (r, s')"
    using res by (simp add: add_task_def)
  show "\<forall>s r s'. add_task_once env st s = (r, s') \<longrightarrow> grows (room_id st) s s'"
    by (simp add: grows_add_task_once)
  show "\<And>s d. grows (room_id st) s (sleep d s)"
    by (rule grows_sleep)
  show "\<And>s. grows (room_id st) s s"
    by (rule grows_refl)
  show "\<And>a b c. grows (room_id st) a b \<Longrightarrow> grows (room_id st) b c \<Longrightarrow> grows (room_id st) a c"
    by (rule grows_trans)
qed

lemma add_task_effect:
  assumes res: "add_task env st s = (r, s')"
  shows "grows (room_id st) s s'"
    and "r = Inl e \<Longrightarrow> is_Exception e \<Longrightarrow> \<not> has_task (room_id st) s'"
    and "r = Inl e \<Longrightarrow> \<not> is_Exception e \<Longrightarrow>
           \<exists>h. next_ref s \<le> h \<and> map_of (tasks s') (room_id st) = Some h"
    and "r = Inr () \<Longrightarrow>
           \<exists>h. next_ref s \<le> h \<and> map_of (tasks s') (room_id st) = Some h \<and>
               make_task_param (heap s' h) = settings_param st"
proof -
  from add_task_last_attempt[OF res] obtain s_last where
    g: "grows (room_id st) s s_last" and once: "add_task_once env st s_last = (r, s')"
    by blast
  note f = add_task_once_effect[OF once]
  from g have le: "next_ref s \<le> next_ref s_last"
    by (simp add: grows_def)
  show "grows (room_id st) s s'"
    using grows_trans[OF g grows_add_task_once[OF once]] .
  show "r = Inl e \<Longrightarrow> is_Exception e \<Longrightarrow> \<not> has_task (room_id st) s'"
    using f(6)[of e] by (simp add: has_task_def delete_conv')
  show "r = Inl e \<Longrightarrow> \<not> is_Exception e \<Longrightarrow>
           \<exists>h. next_ref s \<le> h \<and> map_of (tasks s') (room_id st) = Some h"
  proof -
    assume "r = Inl e" "\<not> is_Exception e"
    from f(7)[OF this] have "map_of (tasks s') (room_id st) = Some (next_ref s_last)"
      by (simp add: update_conv')
    with le show ?thesis by blast
  qed
  show "r = Inr () \<Longrightarrow>
           \<exists>h. next_ref s \<le> h \<and> map_of (tasks s') (room_id st) = Some h \<and>
               make_task_param (heap s' h) = settings_param st"
  proof -
    assume ok: "r = Inr ()"
    from f(5)[OF this] have "map_of (tasks s') (room_id st) = Some (next_ref s_last)"
      by (simp add: update_conv')
    moreover from once ok have "make_task_param (heap s' (next_ref s_last)) = settings_param st"
      by (simp add: add_task_once_configures)
    ultimately show ?thesis using le by blast
  qed
qed

subsection \<open>The loop and the policy\<close>

lemma wait_exponential_cap: "wait_exponential n \<le> 10"
  by (simp add: wait_exponential_def)

lemma wait_exponential_first: "wait_exponential 1 = 1"
  by (simp add: wait_exponential_def)

lemma wait_exponential_doubles:
  assumes "1 \<le> n"
  shows "wait_exponential (Suc n) = min (2 * wait_exponential n) 10"
proof -
  from assms obtain m where n: "n = Suc m"
    by (cases n) auto
  show ?thesis
    by (simp add: wait_exponential_def n min_def)
qed

lemma retryable_kinds:
  "retry_if_exception_type e \<longleftrightarrow>
     e = TimeoutError \<or> (\<exists>m. e = ClientError m) \<or> (\<exists>m. e = ApiRequestError m)"
  by (cases e) (simp_all add: retry_if_exception_type_def)

lemma transient_iff: "transient e = retry_if_exception_type e"
  by (simp add: transient_def retryable_kinds)

lemma backoff_eq: "backoff n = wait_exponential n"
  by (simp add: backoff_def wait_exponential_def)

lemma retrying_follows_policy:
  assumes res: "retrying env st start n s = (r, s')"
  shows "\<exists>failed. policy_run env st start n s failed (r, s') \<and>
                  waits s' = waits s @ map backoff [n..<n + length failed]"
  using res
proof (induction env st start n s rule: retrying.induct)
  case (1 env st start n s)
  obtain r1 s1 where once: "add_task_once env st s = (r1, s1)"
    by (cases "add_task_once env st s")
  have w1: "waits s1 = waits s"
    by (rule add_task_once_effect(2)[OF once])
  show ?case
  proof (cases r1)
    case (Inr u)
    with once "1.prems" have "r = r1" "s' = s1"
      by (simp_all add: retrying_returns)
    with once Inr w1
    have "policy_run env st start n s [] (r, s') \<and>
          waits s' = waits s @ map backoff [n..<n + length ([] :: (error \<times> manager) list)]"
      by simp
    then show ?thesis by blast
  next
    case (Inl e)
    show ?thesis
    proof (cases "retry_if_exception_type e \<and> \<not> stop_after_delay (now s1 - start)")
      case False
      with once Inl "1.prems" have "r = r1" "s' = s1"
        by (simp_all add: retrying_gives_up)
      with once Inl False w1
      have "policy_run env st start n s [] (r, s') \<and>
            waits s' = waits s @ map backoff [n..<n + length ([] :: (error \<times> manager) list)]"
        by (auto simp: transient_iff stop_after_delay_def)
      then show ?thesis by blast
    next
      case True
      with once Inl "1.prems"
      have again: "retrying env st start (Suc n) (sleep (wait_exponential n) s1) = (r, s')"
        by (simp add: retrying_tries_again)
      from True have a: "\<not> \<not> retry_if_exception_type e"
        and b: "\<not> stop_after_delay (now s1 - start)" by simp_all
      from "1.IH"[OF once[symmetric] Inl a b again]
      obtain failed where run: "policy_run env st start (Suc n) (sleep (wait_exponential n) s1)
                                  failed (r, s')"
        and k: "waits s' = waits (sleep (wait_exponential n) s1)
                           @ map backoff [Suc n..<Suc n + length failed]"
        by blast
      have slept: "sleep (wait_exponential n) s1
                     = s1\<lparr>now := now s1 + backoff n, waits := waits s1 @ [backoff n]\<rparr>"
        by (simp add: sleep_def backoff_eq)
      have first: "policy_run env st start n s ((e, s1) # failed) (r, s')"
        using once Inl True run
        by (simp add: transient_iff stop_after_delay_def slept[symmetric])
      have "[n..<n + Suc (length failed)] = n # [Suc n..<n + Suc (length failed)]"
        by (rule upt_conv_Cons) simp
      then have "map backoff [n..<n + Suc (length failed)]
                   = backoff n # map backoff [Suc n..<Suc n + length failed]"
        by (simp only: list.map add_Suc add_Suc_right)
      then have "map backoff [n..<n + length ((e, s1) # failed)]
                   = backoff n # map backoff [Suc n..<Suc n + length failed]"
        by (simp del: upt_Suc)
      with k w1 have "waits s' = waits s @ map backoff [n..<n + length ((e, s1) # failed)]"
        by (simp add: sleep_def backoff_eq del: upt_Suc)
      with first show ?thesis by blast
    qed
  qed
qed

subsection \<open>Actions decided by the job\<close>











subsection \<open>Runs on the concrete managers\<close>

lemma timeout_run:
  "fst (add_task env_timeout (example_settings 7) empty_manager) = Inl TimeoutError"
  "waits (snd (add_task env_timeout (example_settings 7) empty_manager)) = [1]"
  "now (snd (add_task env_timeout (example_settings 7) empty_manager)) = 61"
  by (simp_all add: eval_defs env_timeout_def retry_defs)



lemma first_ok:
  "add_task env_second_fails (example_settings 7) empty_manager = (Inr (), after_first)"
  by (simp add: prod_eq_iff after_first_def eval_defs env_second_fails_def retry_defs)

lemma second_fails_7:
  "add_task env_second_fails (example_settings 7) after_first
     = (Inl (JobError ''setup failed''), failed_second 7)"
  by (simp add: prod_eq_iff failed_second_def)
     (simp add: after_first_def eval_defs env_second_fails_def retry_defs)

lemma second_fails_8:
  "add_task env_second_fails (example_settings 8) after_first
     = (Inl (JobError ''setup failed''), failed_second 8)"
  by (simp add: prod_eq_iff failed_second_def)
     (simp add: after_first_def eval_defs env_second_fails_def retry_defs)

lemma third_ok_7_8:
  "add_task env_second_fails (example_settings 8) (after_second 7) = (Inr (), after_third 7 8)"
  by (simp add: prod_eq_iff after_third_def) (simp add: run_defs)

lemma third_ok_8_9:
  "add_task env_second_fails (example_settings 9) (after_second 8) = (Inr (), after_third 8 9)"
  by (simp add: prod_eq_iff after_third_def) (simp add: run_defs)

lemma end_states:
  "\<not> has_task 7 (after_third 7 8)"
  "\<not> has_task 8 (after_third 8 9)"
  by (simp_all add: has_task_def run_defs)

lemma cancelled_run:
  "add_task env_cancelled (example_settings 7) empty_manager = (Inl CancelledError, cancelled_first)"
  by (simp add: prod_eq_iff cancelled_first_def)
     (simp add: eval_defs env_cancelled_def retry_defs)

lemma cancelled_first_simps:
  "has_task 7 cancelled_first"
  "\<not> has_task 8 cancelled_first"
  "submitted cancelled_first = []"
  by (simp_all add: has_task_def cancelled_first_def eval_defs env_cancelled_def retry_defs)




subsection \<open>The readiness-gated lookup\<close>

lemma gated_lookup_fails:
  "get_task room True s = Inl e \<Longrightarrow> gated_operations_raise env room s e"
  by (simp add: gated_operations_raise_def and_then_lift_Inl
      remove_task_def start_task_def stop_task_def enable_task_monitor_def
      disable_task_monitor_def enable_task_recorder_def disable_task_recorder_def
      get_task_data_def get_task_param_def get_task_metadata_def
      get_task_stream_profile_def get_task_video_file_details_def
      get_task_danmaku_file_details_def can_cut_stream_def cut_stream_def
      update_task_info_def)

text \<open>
  C1, as the code has it. There is no exception class for a job that is not ready:
  \<open>_get_task\<close> raises \<open>NotFoundError\<close> in both cases. For a room that is absent from
  the registry every readiness-gated operation raises \<open>NotFoundError\<close> with the message
  "no task for the room N"; for a room that is present but whose job is not ready it
  raises \<open>NotFoundError\<close> with the message "the task N is not ready yet". The state is
  unchanged, and the two messages differ.
\<close>

theorem gated_operations_raise_not_found:
  "(map_of (tasks s) room = None \<longrightarrow>
      gated_operations_raise env room s
        (NotFoundError (''no task for the room '' @ str_int room))) \<and>
   (\<forall>task. map_of (tasks s) room = Some task \<and> \<not> ready (heap s task) \<longrightarrow>
      gated_operations_raise env room s
        (NotFoundError (''the task '' @ str_int room @ '' is not ready yet''))) \<and>
   ''no task for the room '' @ str_int room \<noteq> ''the task '' @ str_int room @ '' is not ready yet''"
proof (intro conjI impI allI)
  assume "map_of (tasks s) room = None"
  then have "get_task room True s
               = Inl (NotFoundError (''no task for the room '' @ str_int room))"
    by (simp add: get_task_def)
  then show "gated_operations_raise env room s
               (NotFoundError (''no task for the room '' @ str_int room))"
    by (rule gated_lookup_fails)
next
  fix task
  assume "map_of (tasks s) room = Some task \<and> \<not> ready (heap s task)"
  then have "get_task room True s
               = Inl (NotFoundError (''the task '' @ str_int room @ '' is not ready yet''))"
    by (simp add: get_task_def)
  then show "gated_operations_raise env room s
               (NotFoundError (''the task '' @ str_int room @ '' is not ready yet''))"
    by (rule gated_lookup_fails)
next
  show "''no task for the room '' @ str_int room
          \<noteq> ''the task '' @ str_int room @ '' is not ready yet''"
    by simp
qed

theorem gated_operations_raise_not_found_witness:
  "gated_operations_raise env_ok 7 empty_manager (NotFoundError ''no task for the room 7'') \<and>
   gated_operations_raise env_ok 7 unready_manager
     (NotFoundError ''the task 7 is not ready yet'')"
proof -
  have absent: "map_of (tasks empty_manager) 7 = None"
    by (simp add: empty_manager_def)
  have unready: "map_of (tasks unready_manager) 7 = Some 0 \<and> \<not> ready (heap unready_manager 0)"
    by (simp add: unready_manager_simps)
  from gated_operations_raise_not_found [of empty_manager 7 env_ok] absent
  have a: "gated_operations_raise env_ok 7 empty_manager
             (NotFoundError (''no task for the room '' @ str_int 7))"
    by blast
  from gated_operations_raise_not_found [of unready_manager 7 env_ok] unready
  have b: "gated_operations_raise env_ok 7 unready_manager
             (NotFoundError (''the task '' @ str_int 7 @ '' is not ready yet''))"
    by blast
  from a b show ?thesis by (simp add: str_int_7)
qed

text \<open>
  C1 as stated fails: removing room 7 while its job is not ready raises the same class of
  exception, \<open>NotFoundError\<close>, as removing it from an empty registry.
\<close>

theorem not_ready_raises_not_found_counterexample:
  "fst (remove_task env_ok 7 unready_manager)
     = Inl (NotFoundError ''the task 7 is not ready yet'') \<and>
   fst (remove_task env_ok 7 empty_manager)
     = Inl (NotFoundError ''no task for the room 7'')"
  by (simp add: remove_task_def and_then_lift_Inl get_task_def unready_manager_simps
      empty_manager_def str_int_7)

subsection \<open>Operations on all rooms when no job is ready\<close>

lemma unready_none_ready: "ready_tasks unready_manager = []"
  by (simp add: ready_tasks_def unready_manager_simps)

text \<open>
  C3 fails for \<open>destroy_all_tasks\<close>. With room 7 registered and its job not ready, no
  job is ready, the list handed to \<open>asyncio.wait\<close> is empty, and \<open>destroy_all_tasks\<close>
  raises \<open>ValueError\<close>; the registry is not cleared.
\<close>

theorem destroy_all_tasks_none_ready_raises:
  "ready_tasks unready_manager = [] \<and>
   fst (destroy_all_tasks env_ok unready_manager)
     = Inl (ValueError ''Set of coroutines/Futures is empty.'') \<and>
   trace (snd (destroy_all_tasks env_ok unready_manager)) = [] \<and>
   has_task 7 (snd (destroy_all_tasks env_ok unready_manager))"
  by (simp add: destroy_all_tasks_def then_do_apply asyncio_wait_def unready_none_ready
      unready_manager_simps has_task_def)

text \<open>
  The other operations on all rooms test the list before they wait, and do nothing when
  no job is ready; \<open>destroy_all_tasks\<close> returns early only when the registry is empty.
\<close>

lemma no_ready_items:
  "ready_tasks s = [] \<Longrightarrow> filter (\<lambda>(i, t). ready (heap s t)) (tasks s) = []"
  by (auto simp: ready_tasks_def filter_empty_conv)

lemma guarded_bulk_noop:
  assumes "ready_tasks s = []"
  shows "remove_all_tasks env s = (Inr (), s)"
    and "enable_all_task_monitors env s = (Inr (), s)"
    and "disable_all_task_monitors env s = (Inr (), s)"
    and "enable_all_task_recorders env s = (Inr (), s)"
    and "disable_all_task_recorders env force s = (Inr (), s)"
    and "update_all_task_infos env s = (Inr (), s)"
    and "start_all_tasks env s = (Inr (), s)"
    and "stop_all_tasks env force s = (Inr (), s)"
  using assms
  by (simp_all add: remove_all_tasks_def enable_all_task_monitors_def
      disable_all_task_monitors_def enable_all_task_recorders_def
      disable_all_task_recorders_def update_all_task_infos_def start_all_tasks_def
      stop_all_tasks_def then_do_apply no_ready_items)

lemma destroy_all_tasks_empty: "tasks s = [] \<Longrightarrow> destroy_all_tasks env s = (Inr (), s)"
  by (simp add: destroy_all_tasks_def)

subsection \<open>Applying an unchanged header\<close>

text \<open>
  C5. For a registered job whose user agent and cookie equal those of the incoming
  header bundle, \<open>apply_task_header_settings\<close> returns normally and leaves the whole
  state as it was: no field of the job is written and no call is made on the job, in
  particular no session refresh, whatever \<open>update_session\<close> is.
\<close>

theorem apply_header_unchanged_is_noop:
  assumes "map_of (tasks s) room = Some task"
    and "user_agent (heap s task) = HeaderSettings.user_agent settings"
    and "cookie (heap s task) = HeaderSettings.cookie settings"
  shows "apply_task_header_settings env room settings update_session s = (Inr (), s)"
  using assms
  by (simp add: apply_task_header_settings_def and_then_def lift_def get_task_def)

theorem apply_header_unchanged_is_noop_witness:
  "apply_task_header_settings env_ok 7 blank_header True unready_manager
     = (Inr (), unready_manager)
   \<and> map_of (tasks unready_manager) 7 = Some 0"
proof -
  have present: "map_of (tasks unready_manager) 7 = Some 0"
    by (simp add: unready_manager_def set_task_def alloc_task_def empty_manager_def)
  have ua: "user_agent (heap unready_manager 0)
              = HeaderSettings.user_agent blank_header"
    by (simp add: unready_manager_def set_task_def alloc_task_def empty_manager_def
          new_record_task_def blank_header_def)
  have ck: "cookie (heap unready_manager 0)
              = HeaderSettings.cookie blank_header"
    by (simp add: unready_manager_def set_task_def alloc_task_def empty_manager_def
          new_record_task_def blank_header_def)
  from apply_header_unchanged_is_noop [OF present ua ck] present
  show ?thesis by simp
qed

subsection \<open>The order of calls in \<open>remove_task\<close>\<close>

lemma map_of_delete_None: "map_of (AList.delete k al) k = None"
  by (simp add: delete_conv')

text \<open>
  C6. For a registered room whose job is ready, \<open>remove_task\<close> calls on the job
  \<open>disable_recorder(force=True)\<close>, then \<open>disable_monitor\<close>, then \<open>destroy\<close>, and
  nothing else; it stops at the first call that raises. The entry of the room leaves the
  registry only after all three calls have returned; when a call raises, the registry is
  as it was. When no call raises, \<open>remove_task\<close> returns normally.
\<close>

theorem remove_task_order:
  assumes present: "map_of (tasks s) room = Some task"
    and rdy: "ready (heap s task)"
    and res: "remove_task env room s = (r, s')"
  shows "(\<exists>k. 1 \<le> k \<and> k \<le> 3 \<and> trace s' = trace s @ take k (remove_calls task)) \<and>
         (r = Inr () \<longrightarrow> trace s' = trace s @ remove_calls task \<and>
                          tasks s' = AList.delete room (tasks s) \<and> \<not> has_task room s') \<and>
         (r \<noteq> Inr () \<longrightarrow> tasks s' = tasks s) \<and>
         ((\<forall>t op. outcome env t task op = None) \<longrightarrow> r = Inr ())"
proof -
  have lookup: "get_task room True s = Inr task"
    using present rdy by (simp add: get_task_def)
  obtain r1 s1 where c1: "call_job env task (DisableRecorder True) s = (r1, s1)"
    by (cases "call_job env task (DisableRecorder True) s")
  obtain r2 s2 where c2: "call_job env task DisableMonitor s1 = (r2, s2)"
    by (cases "call_job env task DisableMonitor s1")
  obtain r3 s3 where c3: "call_job env task Destroy s2 = (r3, s3)"
    by (cases "call_job env task Destroy s2")
  note f1 = call_job_cases[OF c1] and f2 = call_job_cases[OF c2] and f3 = call_job_cases[OF c3]
  have still: "map_of (tasks s3) room \<noteq> None"
    using present f1(2) f2(2) f3(2) by simp
  have unfolded: "remove_task env room s =
      (case r1 of Inl e \<Rightarrow> (Inl e, s1) | Inr _ \<Rightarrow>
        (case r2 of Inl e \<Rightarrow> (Inl e, s2) | Inr _ \<Rightarrow>
          (case r3 of Inl e \<Rightarrow> (Inl e, s3) | Inr _ \<Rightarrow>
             (Inr (), s3\<lparr>tasks := AList.delete room (tasks s3)\<rparr>))))"
    using still
    by (auto simp: remove_task_def lookup_Inr[OF lookup] then_do_apply c1 c2 c3
        del_task_def split: sum.splits)
  have D: "(\<forall>t op. outcome env t task op = None) \<longrightarrow> r = Inr ()"
  proof
    assume ok: "\<forall>t op. outcome env t task op = None"
    then have "r1 = Inr ()" "r2 = Inr ()" "r3 = Inr ()"
      by (simp_all add: f1(3) f2(3) f3(3))
    with unfolded res show "r = Inr ()" by simp
  qed
  have ABC: "(\<exists>k. 1 \<le> k \<and> k \<le> 3 \<and> trace s' = trace s @ take k (remove_calls task)) \<and>
         (r = Inr () \<longrightarrow> trace s' = trace s @ remove_calls task \<and>
                          tasks s' = AList.delete room (tasks s) \<and> \<not> has_task room s') \<and>
         (r \<noteq> Inr () \<longrightarrow> tasks s' = tasks s)"
  proof (cases r1)
    case (Inl e)
    with unfolded res have "r = Inl e" "s' = s1" by simp_all
    with f1 show ?thesis
      by (auto simp: remove_calls_def intro!: exI[of _ 1])
  next
    case r1: (Inr u1)
    show ?thesis
    proof (cases r2)
      case (Inl e)
      with r1 unfolded res have "r = Inl e" "s' = s2" by simp_all
      with f1 f2 show ?thesis
        by (auto simp: remove_calls_def intro!: exI[of _ 2])
    next
      case r2: (Inr u2)
      show ?thesis
      proof (cases r3)
        case (Inl e)
        with r1 r2 unfolded res have "r = Inl e" "s' = s3" by simp_all
        with f1 f2 f3 show ?thesis
          by (auto simp: remove_calls_def intro!: exI[of _ 3])
      next
        case (Inr u3)
        with r1 r2 unfolded res
        have "r = Inr ()" "s' = s3\<lparr>tasks := AList.delete room (tasks s3)\<rparr>" by simp_all
        with f1 f2 f3 show ?thesis
          by (auto simp: remove_calls_def has_task_def map_of_delete_None
              intro!: exI[of _ 3])
      qed
    qed
  qed
  from ABC D show ?thesis by blast
qed


theorem remove_task_order_witness:
  "fst (remove_task env_ok 7 ready_manager) = Inr () \<and>
   trace (snd (remove_task env_ok 7 ready_manager))
     = [Call 0 (DisableRecorder True), Call 0 DisableMonitor, Call 0 Destroy] \<and>
   \<not> has_task 7 (snd (remove_task env_ok 7 ready_manager))"
proof -
  have present: "map_of (tasks ready_manager) 7 = Some 0"
    by (simp add: ready_manager_simps)
  have rdy: "ready (heap ready_manager 0)"
    by (simp add: ready_manager_simps)
  have res: "remove_task env_ok 7 ready_manager
               = (fst (remove_task env_ok 7 ready_manager),
                  snd (remove_task env_ok 7 ready_manager))"
    by simp
  have quiet: "\<forall>t op. outcome env_ok t 0 op = None"
    by (simp add: env_ok_def)
  from remove_task_order [OF present rdy res] quiet
  show ?thesis
    by (simp add: remove_calls_def ready_manager_simps)
qed

subsection \<open>The order of calls in \<open>start_task\<close>\<close>

text \<open>
  C7. For a registered room whose job is ready, \<open>start_task\<close> calls on the job
  \<open>update_info\<close>, then \<open>enable_monitor\<close>, then \<open>enable_recorder\<close>, and nothing
  else; it stops at the first call that raises. The registry is unchanged. When no call
  raises, \<open>start_task\<close> returns normally.
\<close>

theorem start_task_order:
  assumes present: "map_of (tasks s) room = Some task"
    and rdy: "ready (heap s task)"
    and res: "start_task env room s = (r, s')"
  shows "(\<exists>k. 1 \<le> k \<and> k \<le> 3 \<and> trace s' = trace s @ take k (start_calls task)) \<and>
         (r = Inr () \<longrightarrow> trace s' = trace s @ start_calls task) \<and>
         tasks s' = tasks s \<and>
         ((\<forall>t op. outcome env t task op = None) \<longrightarrow> r = Inr ())"
proof -
  have lookup: "get_task room True s = Inr task"
    using present rdy by (simp add: get_task_def)
  obtain r1 s1 where c1: "call_job env task UpdateInfo s = (r1, s1)"
    by (cases "call_job env task UpdateInfo s")
  obtain r2 s2 where c2: "call_job env task EnableMonitor s1 = (r2, s2)"
    by (cases "call_job env task EnableMonitor s1")
  obtain r3 s3 where c3: "call_job env task EnableRecorder s2 = (r3, s3)"
    by (cases "call_job env task EnableRecorder s2")
  note f1 = call_job_cases[OF c1] and f2 = call_job_cases[OF c2] and f3 = call_job_cases[OF c3]
  have unfolded: "start_task env room s =
      (case r1 of Inl e \<Rightarrow> (Inl e, s1) | Inr _ \<Rightarrow>
        (case r2 of Inl e \<Rightarrow> (Inl e, s2) | Inr _ \<Rightarrow> (r3, s3)))"
    by (auto simp: start_task_def lookup_Inr[OF lookup] then_do_apply c1 c2 c3
        split: sum.splits)
  have D: "(\<forall>t op. outcome env t task op = None) \<longrightarrow> r = Inr ()"
  proof
    assume ok: "\<forall>t op. outcome env t task op = None"
    then have "r1 = Inr ()" "r2 = Inr ()" "r3 = Inr ()"
      by (simp_all add: f1(3) f2(3) f3(3))
    with unfolded res show "r = Inr ()" by simp
  qed
  have ABC: "(\<exists>k. 1 \<le> k \<and> k \<le> 3 \<and> trace s' = trace s @ take k (start_calls task)) \<and>
         (r = Inr () \<longrightarrow> trace s' = trace s @ start_calls task) \<and>
         tasks s' = tasks s"
  proof (cases r1)
    case (Inl e)
    with unfolded res have "r = Inl e" "s' = s1" by simp_all
    with f1 show ?thesis
      by (auto simp: start_calls_def intro!: exI[of _ 1])
  next
    case r1: (Inr u1)
    show ?thesis
    proof (cases r2)
      case (Inl e)
      with r1 unfolded res have "r = Inl e" "s' = s2" by simp_all
      with f1 f2 show ?thesis
        by (auto simp: start_calls_def intro!: exI[of _ 2])
    next
      case r2: (Inr u2)
      with r1 unfolded res have "r = r3" "s' = s3" by simp_all
      with f1 f2 f3 show ?thesis
        by (auto simp: start_calls_def intro!: exI[of _ 3])
    qed
  qed
  from ABC D show ?thesis by blast
qed

theorem start_task_order_witness:
  "fst (start_task env_ok 7 ready_manager) = Inr () \<and>
   trace (snd (start_task env_ok 7 ready_manager))
     = [Call 0 UpdateInfo, Call 0 EnableMonitor, Call 0 EnableRecorder] \<and>
   tasks (snd (start_task env_ok 7 ready_manager)) = [(7, 0)]"
proof -
  have present: "map_of (tasks ready_manager) 7 = Some 0"
    by (simp add: ready_manager_simps)
  have rdy: "ready (heap ready_manager 0)"
    by (simp add: ready_manager_simps)
  have res: "start_task env_ok 7 ready_manager
               = (fst (start_task env_ok 7 ready_manager),
                  snd (start_task env_ok 7 ready_manager))"
    by simp
  have quiet: "\<forall>t op. outcome env_ok t 0 op = None"
    by (simp add: env_ok_def)
  from start_task_order [OF present rdy res] quiet
  show ?thesis
    by (simp add: start_calls_def ready_manager_simps)
qed

subsection \<open>A failed creation\<close>




subsection \<open>The retry policy\<close>

text \<open>
  C4. The retry policy of \<open>add_task\<close> retries exactly \<open>TimeoutError\<close>, \<open>ClientError\<close>
  and \<open>ApiRequestError\<close>. The pause after the first attempt is 1 time unit and each
  later pause is twice the one before, capped at 10; the pauses of a call are those of
  attempts 1, 2, 3 and so on, each at most 10. When the call raises, the exception and the
  state are those of its last attempt, unchanged, and either the exception is not
  retryable or at least 60 time units have passed since the call began. The call is a run
  of the policy in the words of the specification: every attempt that was retried had
  raised a retryable exception before the 60 time units had passed. At every attempt,
  whatever its number: an attempt that returns ends the call; an exception that is not
  retryable, or any exception once 60 time units have passed, leaves the call at once,
  with the state of that attempt; a retryable exception within the budget is followed by
  the pause of that attempt and by the next attempt.
\<close>

theorem add_task_retry_policy:
  assumes res: "add_task env settings s = (r, s')"
    and first: "add_task_once env settings s = (r1, s1)"
  shows "(retry_if_exception_type e \<longleftrightarrow>
            e = TimeoutError \<or> (\<exists>m. e = ClientError m) \<or> (\<exists>m. e = ApiRequestError m)) \<and>
         wait_exponential 1 = 1 \<and>
         (1 \<le> n \<longrightarrow> wait_exponential (Suc n) = min (2 * wait_exponential n) 10) \<and>
         (\<exists>k. waits s' = waits s @ map wait_exponential [1..<1 + k]) \<and>
         (\<forall>w \<in> set (waits s') - set (waits s). w \<le> 10) \<and>
         (\<forall>x. r = Inl x \<longrightarrow>
            (\<exists>s_last. add_task_once env settings s_last = (Inl x, s')) \<and>
            (\<not> retry_if_exception_type x \<or> 60 \<le> now s' - now s)) \<and>
         (\<forall>x. r1 = Inl x \<and> \<not> retry_if_exception_type x \<longrightarrow> r = Inl x \<and> s' = s1) \<and>
         (\<forall>x. r1 = Inl x \<and> retry_if_exception_type x \<and> now s1 - now s < 60 \<longrightarrow>
            (r, s') = retrying env settings (now s) 2 (sleep 1 s1)) \<and>
         (\<exists>failed. policy_run env settings (now s) 1 s failed (r, s') \<and>
                   waits s' = waits s @ map backoff [1..<1 + length failed]) \<and>
         add_task env settings s = retrying env settings (now s) 1 s \<and>
         (add_task_once env settings u = (Inr (), t) \<longrightarrow>
            retrying env settings start k u = (Inr (), t)) \<and>
         (\<forall>x. add_task_once env settings u = (Inl x, t) \<and>
              (\<not> retry_if_exception_type x \<or> 60 \<le> now t - start) \<longrightarrow>
            retrying env settings start k u = (Inl x, t)) \<and>
         (\<forall>x. add_task_once env settings u = (Inl x, t) \<and>
              retry_if_exception_type x \<and> now t - start < 60 \<longrightarrow>
            retrying env settings start k u
              = retrying env settings start (Suc k)
                  (t\<lparr>now := now t + wait_exponential k,
                     waits := waits t @ [wait_exponential k]\<rparr>))"
proof -
  from res have loop: "retrying env settings (now s) 1 s = (r, s')"
    by (simp add: add_task_def)
  from retrying_waits[OF loop] obtain j where
    j: "waits s' = waits s @ map wait_exponential [1..<1 + j]" by blast
  then have pauses: "\<exists>k. waits s' = waits s @ map wait_exponential [1..<1 + k]"
    by blast
  have capped: "\<forall>w \<in> set (waits s') - set (waits s). w \<le> 10"
    using j by (auto simp: wait_exponential_cap)
  from add_task_last_attempt[OF res] obtain s_last where
    last: "add_task_once env settings s_last = (r, s')"
    and why: "\<forall>x. r = Inl x \<longrightarrow>
                \<not> retry_if_exception_type x \<or> stop_after_delay (now s' - now s)"
    by blast
  have gave_up: "\<forall>x. r = Inl x \<longrightarrow>
            (\<exists>s_last. add_task_once env settings s_last = (Inl x, s')) \<and>
            (\<not> retry_if_exception_type x \<or> 60 \<le> now s' - now s)"
    using last why by (auto simp: stop_after_delay_def)
  have at_once: "\<forall>x. r1 = Inl x \<and> \<not> retry_if_exception_type x \<longrightarrow> r = Inl x \<and> s' = s1"
  proof (intro allI impI)
    fix x assume x: "r1 = Inl x \<and> \<not> retry_if_exception_type x"
    with first have "retrying env settings (now s) 1 s = (Inl x, s1)"
      by (simp add: retrying_gives_up)
    with loop show "r = Inl x \<and> s' = s1" by simp
  qed
  have again: "\<forall>x. r1 = Inl x \<and> retry_if_exception_type x \<and> now s1 - now s < 60 \<longrightarrow>
            (r, s') = retrying env settings (now s) 2 (sleep 1 s1)"
  proof (intro allI impI)
    fix x assume x: "r1 = Inl x \<and> retry_if_exception_type x \<and> now s1 - now s < 60"
    then have rx: "retry_if_exception_type x \<and> \<not> stop_after_delay (now s1 - now s)"
      by (simp add: stop_after_delay_def)
    from x first have f: "add_task_once env settings s = (Inl x, s1)"
      by simp
    have "retrying env settings (now s) 1 s
        = retrying env settings (now s) (Suc 1) (sleep (wait_exponential 1) s1)"
      by (rule retrying_tries_again[OF f rx])
    with loop show "(r, s') = retrying env settings (now s) 2 (sleep 1 s1)"
      by (simp add: wait_exponential_def numeral_2_eq_2)
  qed
  have run: "\<exists>failed. policy_run env settings (now s) 1 s failed (r, s') \<and>
                   waits s' = waits s @ map backoff [1..<1 + length failed]"
    by (rule retrying_follows_policy[OF loop])
  have unfolded: "add_task env settings s = retrying env settings (now s) 1 s"
    by (simp add: add_task_def)
  have returns: "add_task_once env settings u = (Inr (), t) \<longrightarrow>
            retrying env settings start k u = (Inr (), t)"
    by (simp add: retrying_returns)
  have stops: "\<forall>x. add_task_once env settings u = (Inl x, t) \<and>
              (\<not> retry_if_exception_type x \<or> 60 \<le> now t - start) \<longrightarrow>
            retrying env settings start k u = (Inl x, t)"
    by (auto intro!: retrying_gives_up simp: stop_after_delay_def)
  have continues: "\<forall>x. add_task_once env settings u = (Inl x, t) \<and>
              retry_if_exception_type x \<and> now t - start < 60 \<longrightarrow>
            retrying env settings start k u
              = retrying env settings start (Suc k)
                  (t\<lparr>now := now t + wait_exponential k,
                     waits := waits t @ [wait_exponential k]\<rparr>)"
  proof (intro allI impI)
    fix x assume x: "add_task_once env settings u = (Inl x, t) \<and>
              retry_if_exception_type x \<and> now t - start < 60"
    then have f: "add_task_once env settings u = (Inl x, t)"
      and rx: "retry_if_exception_type x \<and> \<not> stop_after_delay (now t - start)"
      by (simp_all add: stop_after_delay_def)
    from retrying_tries_again[OF f rx, of k]
    show "retrying env settings start k u
              = retrying env settings start (Suc k)
                  (t\<lparr>now := now t + wait_exponential k,
                     waits := waits t @ [wait_exponential k]\<rparr>)"
      by (simp add: sleep_def)
  qed
  from retryable_kinds wait_exponential_first wait_exponential_doubles pauses capped gave_up
    at_once again run unfolded returns stops continues
  show ?thesis by blast
qed

theorem add_task_retry_policy_witness:
  "fst (add_task env_timeout (example_settings 7) empty_manager) = Inl TimeoutError \<and>
   retry_if_exception_type TimeoutError \<and>
   waits (snd (add_task env_timeout (example_settings 7) empty_manager)) = [1] \<and>
   60 \<le> now (snd (add_task env_timeout (example_settings 7) empty_manager))
          - now empty_manager"
proof -
  let ?run = "add_task env_timeout (example_settings 7) empty_manager"
  let ?once = "add_task_once env_timeout (example_settings 7) empty_manager"
  have res: "?run = (fst ?run, snd ?run)" and first: "?once = (fst ?once, snd ?once)"
    by simp_all
  have retryable: "retry_if_exception_type TimeoutError"
    by (simp add: retry_if_exception_type_def)
  note policy = add_task_retry_policy
    [OF res first, where e = TimeoutError and n = 1 and u = empty_manager
       and t = empty_manager and start = 0 and k = 1]
  from policy have gave_up: "\<forall>x. fst ?run = Inl x \<longrightarrow>
            (\<exists>s_last. add_task_once env_timeout (example_settings 7) s_last
                        = (Inl x, snd ?run)) \<and>
            (\<not> retry_if_exception_type x \<or> 60 \<le> now (snd ?run) - now empty_manager)"
    by (elim conjE)
  with timeout_run(1) retryable have "60 \<le> now (snd ?run) - now empty_manager"
    by simp
  with timeout_run retryable show ?thesis by simp
qed

subsection \<open>Loading the configured jobs\<close>

lemma load_loop_append:
  "load_loop env (l1 @ l2) s =
     (case load_loop env l1 s of (Inl e, s') \<Rightarrow> (Inl e, s') | (Inr u, s') \<Rightarrow> load_loop env l2 s')"
  by (induction l1 arbitrary: s) (auto split: prod.splits sum.splits)

lemma load_loop_raises:
  "load_loop env l s = (Inl e, s') \<Longrightarrow> \<not> is_Exception e"
  by (induction l arbitrary: s) (auto split: prod.splits sum.splits if_splits)

text \<open>
  C8, as the code has it. \<open>load_all_tasks\<close> over a settings list raises nothing but an
  exception outside \<open>Exception\<close>. It handles the entries in list order, one \<open>add_task\<close>
  for each: loading a concatenation is loading the first part and, unless that raises,
  then the second; loading one entry is \<open>add_task\<close> on it, and when that raises an
  \<open>Exception\<close> it is handed to \<open>submit_exception\<close> and the call returns, while an
  exception outside \<open>Exception\<close> leaves \<open>load_all_tasks\<close> unsubmitted. For a list of
  three entries where the first and the third are created and the second fails with an
  \<open>Exception\<close>, the rooms of the first and the third are registered at the end and the
  exception of the second is the one submitted, provided the room of the second differs
  from the room of the first.
\<close>

theorem load_all_tasks_isolates_failures:
  "(\<forall>x. fst (load_all_tasks env (Some l) s) = Inl x \<longrightarrow> \<not> is_Exception x) \<and>
   load_all_tasks env (Some (l1 @ l2)) s
     = (case load_all_tasks env (Some l1) s of
          (Inl x, s') \<Rightarrow> (Inl x, s')
        | (Inr u, s') \<Rightarrow> load_all_tasks env (Some l2) s') \<and>
   load_all_tasks env (Some [entry]) s
     = (case add_task env entry s of
          (Inr u, s') \<Rightarrow> (Inr (), s')
        | (Inl x, s') \<Rightarrow> if is_Exception x then (Inr (), submit_exception x s')
                         else (Inl x, s')) \<and>
   (add_task env A s = (Inr (), sA) \<and> add_task env B sA = (Inl e, sB) \<and> is_Exception e \<and>
    add_task env C (submit_exception e sB) = (Inr (), sC) \<and> room_id B \<noteq> room_id A \<longrightarrow>
      load_all_tasks env (Some [A, B, C]) s = (Inr (), sC) \<and>
      has_task (room_id A) sC \<and> has_task (room_id C) sC \<and>
      submitted sC = submitted s @ [e])"
proof (intro conjI impI allI)
  fix x
  assume "fst (load_all_tasks env (Some l) s) = Inl x"
  then have "load_loop env l s = (Inl x, snd (load_loop env l s))"
    by (simp add: load_all_tasks_def prod_eq_iff)
  then show "\<not> is_Exception x"
    by (rule load_loop_raises)
next
  show "load_all_tasks env (Some (l1 @ l2)) s
     = (case load_all_tasks env (Some l1) s of
          (Inl x, s') \<Rightarrow> (Inl x, s')
        | (Inr u, s') \<Rightarrow> load_all_tasks env (Some l2) s')"
    by (simp add: load_all_tasks_def load_loop_append split: prod.splits sum.splits)
  show "load_all_tasks env (Some [entry]) s
     = (case add_task env entry s of
          (Inr u, s') \<Rightarrow> (Inr (), s')
        | (Inl x, s') \<Rightarrow> if is_Exception x then (Inr (), submit_exception x s')
                         else (Inl x, s'))"
    by (simp add: load_all_tasks_def split: prod.splits sum.splits)
next
  assume run: "add_task env A s = (Inr (), sA) \<and> add_task env B sA = (Inl e, sB) \<and>
    is_Exception e \<and>
    add_task env C (submit_exception e sB) = (Inr (), sC) \<and> room_id B \<noteq> room_id A"
  then have a: "add_task env A s = (Inr (), sA)" and b: "add_task env B sA = (Inl e, sB)"
    and exc: "is_Exception e"
    and c: "add_task env C (submit_exception e sB) = (Inr (), sC)"
    and ne: "room_id B \<noteq> room_id A" by simp_all
  note ea = add_task_effect[OF a] and eb = add_task_effect[OF b] and ec = add_task_effect[OF c]
  show "load_all_tasks env (Some [A, B, C]) s = (Inr (), sC)"
    by (simp add: load_all_tasks_def a b c exc)
  from ea(4) have inA: "has_task (room_id A) sA"
    by (auto simp: has_task_def)
  from eb(1) ne have "map_of (tasks sB) (room_id A) = map_of (tasks sA) (room_id A)"
    by (auto simp: grows_def)
  with inA have inB: "has_task (room_id A) (submit_exception e sB)"
    by (simp add: has_task_def submit_exception_def)
  from ec(4) have inC: "has_task (room_id C) sC"
    by (auto simp: has_task_def)
  then show "has_task (room_id C) sC" .
  show "has_task (room_id A) sC"
  proof (cases "room_id A = room_id C")
    case True
    with inC show ?thesis by simp
  next
    case False
    with ec(1) have "map_of (tasks sC) (room_id A)
                       = map_of (tasks (submit_exception e sB)) (room_id A)"
      by (auto simp: grows_def)
    with inB show ?thesis by (simp add: has_task_def)
  qed
  from ea(1) eb(1) ec(1) show "submitted sC = submitted s @ [e]"
    by (simp add: grows_def submit_exception_def)
qed

theorem load_all_tasks_isolates_failures_witness:
  "load_all_tasks env_second_fails (Some three_rooms) empty_manager
     = (Inr (), after_third 8 9) \<and>
   has_task 7 (after_third 8 9) \<and> \<not> has_task 8 (after_third 8 9) \<and>
   has_task 9 (after_third 8 9) \<and>
   submitted (after_third 8 9) = [JobError ''setup failed'']"
proof -
  let ?A = "example_settings 7" and ?B = "example_settings 8" and ?C = "example_settings 9"
  have c: "add_task env_second_fails ?C
             (submit_exception (JobError ''setup failed'') (failed_second 8))
           = (Inr (), after_third 8 9)"
    using third_ok_8_9 by (simp only: after_second_def)
  have ne: "room_id ?B \<noteq> room_id ?A"
    by (simp add: example_settings_def)
  have exc: "is_Exception (JobError ''setup failed'')"
    by (simp add: is_Exception_def)
  have rooms: "room_id ?A = 7" "room_id ?C = 9"
    by (simp_all add: example_settings_def)
  have sub: "submitted empty_manager = []"
    by (simp add: empty_manager_def)
  note all = load_all_tasks_isolates_failures
         [where env = env_second_fails and l = "[]" and s = empty_manager and ?l1.0 = "[]"
            and ?l2.0 = "[]" and entry = ?A and A = ?A and sA = after_first and B = ?B
            and e = "JobError ''setup failed''" and sB = "failed_second 8" and C = ?C
            and sC = "after_third 8 9"]
  from all have scenario:
    "add_task env_second_fails ?A empty_manager = (Inr (), after_first) \<and>
     add_task env_second_fails ?B after_first
       = (Inl (JobError ''setup failed''), failed_second 8) \<and>
     is_Exception (JobError ''setup failed'') \<and>
     add_task env_second_fails ?C (submit_exception (JobError ''setup failed'') (failed_second 8))
       = (Inr (), after_third 8 9) \<and>
     room_id ?B \<noteq> room_id ?A \<longrightarrow>
     load_all_tasks env_second_fails (Some [?A, ?B, ?C]) empty_manager
       = (Inr (), after_third 8 9) \<and>
     has_task (room_id ?A) (after_third 8 9) \<and> has_task (room_id ?C) (after_third 8 9) \<and>
     submitted (after_third 8 9) = submitted empty_manager @ [JobError ''setup failed'']"
    by (elim conjE)
  have "load_all_tasks env_second_fails (Some [?A, ?B, ?C]) empty_manager
       = (Inr (), after_third 8 9) \<and>
     has_task (room_id ?A) (after_third 8 9) \<and> has_task (room_id ?C) (after_third 8 9) \<and>
     submitted (after_third 8 9) = submitted empty_manager @ [JobError ''setup failed'']"
    by (rule mp[OF scenario]) (intro conjI first_ok second_fails_8 exc c ne)
  then show ?thesis
    by (simp only: rooms sub three_rooms_def end_states append_Nil simp_thms)
qed

text \<open>
  C8 as stated fails in two ways. When the second entry has the room of the first, the
  first and the third entry are created, the second fails and takes the entry of room 7
  with it, so the room of the first entry is not registered at the end. And when the
  creation of the first of two entries is cancelled, \<open>load_all_tasks\<close> itself raises
  \<open>CancelledError\<close>, nothing is submitted and the second entry is never created.
\<close>

theorem load_all_tasks_same_room_counterexample:
  "add_task env_second_fails (example_settings 7) empty_manager = (Inr (), after_first) \<and>
   add_task env_second_fails (example_settings 7) after_first
     = (Inl (JobError ''setup failed''), failed_second 7) \<and>
   add_task env_second_fails (example_settings 8) (after_second 7)
     = (Inr (), after_third 7 8) \<and>
   load_all_tasks env_second_fails (Some same_room_twice) empty_manager
     = (Inr (), after_third 7 8) \<and>
   \<not> has_task 7 (after_third 7 8) \<and>
   load_all_tasks env_cancelled (Some two_rooms) empty_manager
     = (Inl CancelledError, cancelled_first) \<and>
   submitted cancelled_first = [] \<and>
   \<not> has_task 8 cancelled_first"
proof -
  have c: "add_task env_second_fails (example_settings 8)
             (submit_exception (JobError ''setup failed'') (failed_second 7))
           = (Inr (), after_third 7 8)"
    using third_ok_7_8 by (simp only: after_second_def)
  have exc: "is_Exception (JobError ''setup failed'')" "\<not> is_Exception CancelledError"
    by (simp_all add: is_Exception_def)
  have run: "load_all_tasks env_second_fails (Some same_room_twice) empty_manager
               = (Inr (), after_third 7 8)"
    by (simp add: load_all_tasks_def same_room_twice_def first_ok second_fails_7 c exc)
  have cancelled: "load_all_tasks env_cancelled (Some two_rooms) empty_manager
                     = (Inl CancelledError, cancelled_first)"
    by (simp add: load_all_tasks_def two_rooms_def cancelled_run exc)
  from run first_ok second_fails_7 third_ok_7_8 end_states(1) cancelled
    cancelled_first_simps(3) cancelled_first_simps(2)
  show ?thesis
    by (intro conjI)
qed

subsection \<open>Creating a job for a room that is registered\<close>




subsection \<open>The lookup of the settings appliers\<close>















end
